theory Spec2Isabelle
  imports Main
begin

section \<open>Python strings and the built-ins the program uses\<close>

text \<open>
  A Python \<open>str\<close> is modelled as a \<open>string\<close> (a list of characters); the model's
  characters are the code points below 256. The built-ins \<open>str.strip\<close>,
  \<open>str.join\<close>, \<open>str.split\<close>, \<open>str.replace\<close> and the integer formats of
  f-strings are written out as the language defines them.
\<close>

abbreviation NL :: char where
  "NL \<equiv> CHR 0x0A"

abbreviation CR :: char where
  "CR \<equiv> CHR 0x0D"

text \<open>
  \<open>str.isspace\<close> on one character, for the code points below 256: TAB, LF, VT, FF,
  CR, the separators 0x1C..0x1F, SPACE, NEL (0x85) and NBSP (0xA0).
\<close>

definition is_space :: "char \<Rightarrow> bool" where
  "is_space c \<longleftrightarrow>
     c \<in> {CHR 0x09, CHR 0x0A, CHR 0x0B, CHR 0x0C, CHR 0x0D,
          CHR 0x1C, CHR 0x1D, CHR 0x1E, CHR 0x1F, CHR 0x20, CHR 0x85, CHR 0xA0}"

definition py_lstrip :: "string \<Rightarrow> string" where
  "py_lstrip s = dropWhile is_space s"

definition py_rstrip :: "string \<Rightarrow> string" where
  "py_rstrip s = rev (dropWhile is_space (rev s))"

text \<open>\<open>s.strip()\<close>: leading and trailing whitespace removed.\<close>

definition py_strip :: "string \<Rightarrow> string" where
  "py_strip s = py_rstrip (py_lstrip s)"

text \<open>\<open>sep.join(xs)\<close>.\<close>

fun py_join :: "string \<Rightarrow> string list \<Rightarrow> string" where
  "py_join sep [] = []"
| "py_join sep [x] = x"
| "py_join sep (x # y # ys) = x @ sep @ py_join sep (y # ys)"

text \<open>
  \<open>xs[i:j]\<close> for integer bounds: a negative bound counts from the end, and both are
  clamped to \<open>0..len(xs)\<close>; an empty slice when the lower bound is not below the upper.
\<close>

definition slice_bound :: "nat \<Rightarrow> int \<Rightarrow> nat" where
  "slice_bound n i = (if i < 0 then nat (max (int n + i) 0) else nat (min i (int n)))"

definition py_slice :: "'a list \<Rightarrow> int \<Rightarrow> int \<Rightarrow> 'a list" where
  "py_slice xs i j =
     (let lo = slice_bound (length xs) i; hi = slice_bound (length xs) j
      in take (hi - lo) (drop lo xs))"

text \<open>
  \<open>s.split(sep)\<close> for a non-empty separator: the string is cut at every occurrence of
  \<open>sep\<close>, found from left to right without overlap. \<open>cur\<close> is the piece being read.
  (Python raises ValueError for an empty separator; every separator of the program is a
  non-empty literal.)
\<close>

function split_on :: "string \<Rightarrow> string \<Rightarrow> string \<Rightarrow> string list" where
  "split_on sep cur [] = [cur]"
| "split_on sep cur (c # cs) =
     (if take (length sep) (c # cs) = sep
      then cur # split_on sep [] (drop (length sep - 1) cs)
      else split_on sep (cur @ [c]) cs)"
  by pat_completeness auto
termination
  by (relation "measure (\<lambda>(sep, cur, s). length s)") auto

definition py_split :: "string \<Rightarrow> string \<Rightarrow> string list" where
  "py_split s sep = split_on sep [] s"

text \<open>\<open>s.replace(old, new)\<close> for a non-empty \<open>old\<close>.\<close>

definition py_replace :: "string \<Rightarrow> string \<Rightarrow> string \<Rightarrow> string" where
  "py_replace s old new = py_join new (py_split s old)"

text \<open>\<open>str(n)\<close> and the f-string field \<open>{n}\<close> of an integer: its decimal digits.\<close>

fun str_nat :: "nat \<Rightarrow> string" where
  "str_nat n =
     (if n < 10 then [''0123456789'' ! n]
      else str_nat (n div 10) @ [''0123456789'' ! (n mod 10)])"

declare str_nat.simps [simp del]

definition str_int :: "int \<Rightarrow> string" where
  "str_int n = (if n < 0 then CHR ''-'' # str_nat (nat (- n)) else str_nat (nat n))"

text \<open>
  The f-string field \<open>{n:03d}\<close>: the decimal digits, padded with zeros on the left (after
  the sign) to a width of at least 3 characters.
\<close>

definition fmt_03d :: "int \<Rightarrow> string" where
  "fmt_03d n =
     (if n < 0
      then CHR ''-'' # replicate (2 - length (str_nat (nat (- n)))) CHR ''0'' @ str_nat (nat (- n))
      else replicate (3 - length (str_nat (nat n))) CHR ''0'' @ str_nat (nat n))"

text \<open>
  \<open>xml.sax.saxutils.escape\<close> with no extra entities: the ampersand first, then the two
  angle brackets.
\<close>

definition xml_escape :: "string \<Rightarrow> string" where
  "xml_escape d =
     py_replace (py_replace (py_replace d ''&'' ''&amp;'') ''>'' ''&gt;'') ''<'' ''&lt;''"

section \<open>Joining page texts\<close>

text \<open>
  \<^verbatim>\<open>
  def join_pages(pages_text, start_idx, end_idx):
      return "\n\n".join(pages_text[start_idx:end_idx]).strip()
  \<close>
\<close>

definition join_pages :: "string list \<Rightarrow> int \<Rightarrow> int \<Rightarrow> string" where
  "join_pages pages_text start_idx end_idx =
     py_strip (py_join [NL, NL] (py_slice pages_text start_idx end_idx))"

section \<open>Images and the preprocessor\<close>

text \<open>
  A Pillow image is its size and its pixels, addressed by column and row. A pixel of an
  RGB image is a triple, a pixel of a greyscale (mode L) image one value in \<open>0..255\<close>.
\<close>

record 'p image =
  img_w :: nat
  img_h :: nat
  img_px :: "nat \<Rightarrow> nat \<Rightarrow> 'p"

type_synonym rgb_image = "(int \<times> int \<times> int) image"
type_synonym gray_image = "int image"

text \<open>
  The Pillow operations whose pixel arithmetic is the library's own (Lanczos resampling,
  the luma transform, the histogram stretch) are parameters of the model.
\<close>

record pil =
  resize_lanczos :: "nat \<times> nat \<Rightarrow> rgb_image \<Rightarrow> rgb_image"
  grayscale :: "rgb_image \<Rightarrow> gray_image"
  autocontrast :: "gray_image \<Rightarrow> gray_image"

text \<open>\<open>Image.point(f)\<close>: every pixel is mapped through \<open>f\<close>.\<close>

definition point :: "(int \<Rightarrow> int) \<Rightarrow> gray_image \<Rightarrow> gray_image" where
  "point f g = g\<lparr>img_px := \<lambda>x y. f (img_px g x y)\<rparr>"

text \<open>
  \<open>ImageFilter.MedianFilter(3)\<close>: the image is expanded by one pixel on every side,
  repeating its edge pixels, and every output pixel is the value of rank 4 (of 0..8) among
  the nine pixels of the 3x3 window around it.
\<close>

definition window3 :: "gray_image \<Rightarrow> nat \<Rightarrow> nat \<Rightarrow> int list" where
  "window3 g x y =
     concat (map (\<lambda>dy. map (\<lambda>dx.
         img_px g (min (x + dx - 1) (img_w g - 1)) (min (y + dy - 1) (img_h g - 1)))
       [0, 1, 2]) [0, 1, 2])"

definition MedianFilter3 :: "gray_image \<Rightarrow> gray_image" where
  "MedianFilter3 g = g\<lparr>img_px := \<lambda>x y. sort (window3 g x y) ! 4\<rparr>"

text \<open>
  \<open>ImageFilter.SHARPEN\<close>: the 3x3 kernel \<open>(-2,-2,-2, -2,32,-2, -2,-2,-2)\<close> with scale 16
  and offset 0. The pixels of the outermost rows and columns are copied; an inner pixel is
  the weighted sum over its window divided by 16, rounded by adding one half, and clipped
  to \<open>0..255\<close>. \<open>sharpen_px\<close> works in sixteenths.
\<close>

definition sharpen_px :: "int \<Rightarrow> int list \<Rightarrow> int" where
  "sharpen_px c ns =
     (let ss = 32 * c - 2 * sum_list ns + 8
      in if ss \<le> 0 then 0 else if 255 * 16 \<le> ss then 255 else ss div 16)"

definition neighbours8 :: "gray_image \<Rightarrow> nat \<Rightarrow> nat \<Rightarrow> int list" where
  "neighbours8 g x y =
     [img_px g (x - 1) (y - 1), img_px g x (y - 1), img_px g (x + 1) (y - 1),
      img_px g (x - 1) y, img_px g (x + 1) y,
      img_px g (x - 1) (y + 1), img_px g x (y + 1), img_px g (x + 1) (y + 1)]"

definition SHARPEN :: "gray_image \<Rightarrow> gray_image" where
  "SHARPEN g = g\<lparr>img_px := \<lambda>x y.
     if x = 0 \<or> y = 0 \<or> img_w g \<le> x + 1 \<or> img_h g \<le> y + 1 then img_px g x y
     else sharpen_px (img_px g x y) (neighbours8 g x y)\<rparr>"

text \<open>The lambda of line 35: \<open>lambda x: 255 if x > 180 else 0\<close>.\<close>

definition threshold180 :: "int \<Rightarrow> int" where
  "threshold180 x = (if x > 180 then 255 else 0)"

text \<open>
  \<^verbatim>\<open>
  def _preprocess_for_ocr(img, upscale=1.5):
      w, h = img.size
      if min(w, h) < 1400:
          img = img.resize((int(w * upscale), int(h * upscale)), Image.LANCZOS)
      g = ImageOps.grayscale(img)
      g = ImageOps.autocontrast(g)
      bw = g.point(lambda x: 255 if x > 180 else 0)
      bw = bw.filter(ImageFilter.MedianFilter(3)).filter(ImageFilter.SHARPEN)
      return bw
  \<close>
  The function is only called with the default \<open>upscale = 1.5\<close>; \<open>int(w * 1.5)\<close> is
  \<open>w * 3 div 2\<close> for a width the float product represents exactly.
\<close>

definition preprocess_for_ocr :: "pil \<Rightarrow> rgb_image \<Rightarrow> gray_image" where
  "preprocess_for_ocr P img =
     (let w = img_w img; h = img_h img;
          img1 = (if min w h < 1400
                  then resize_lanczos P (w * 3 div 2, h * 3 div 2) img else img);
          g = grayscale P img1;
          g1 = autocontrast P g;
          bw = point threshold180 g1;
          bw1 = SHARPEN (MedianFilter3 bw)
      in bw1)"

text \<open>An image is bilevel when each of its pixels is 0 (black) or 255 (white).\<close>

definition bilevel :: "gray_image \<Rightarrow> bool" where
  "bilevel g \<longleftrightarrow> (\<forall>x < img_w g. \<forall>y < img_h g. img_px g x y = 0 \<or> img_px g x y = 255)"

section \<open>Errors, the environment and the observable state\<close>

text \<open>
  The source defines no exception class: the exceptions are those of PyMuPDF, Pillow and
  pytesseract, and the worker catches \<open>Exception\<close>. They are named here after the
  failure they report. \<open>DocumentExtractionError\<close> is the wrapper named by the
  specification; no function of the source constructs it.
\<close>

datatype exn =
    DocumentOpenError string
  | RenderError string
  | OCREngineError string
  | DocumentExtractionError nat exn

text \<open>
  The libraries and the operating system, as parameters: \<open>fitz.open\<close>, \<open>len(doc)\<close>,
  the rendering of one page (\<open>load_page\<close>, \<open>get_pixmap\<close>, \<open>Image.frombytes\<close>),
  \<open>pytesseract.image_to_string\<close> (image, language, configuration), and
  \<open>os.path.basename\<close>, the root of \<open>os.path.splitext\<close> and \<open>os.path.join\<close>.
\<close>

record 'doc env =
  pil_ops :: pil
  fitz_open :: "string \<Rightarrow> exn + 'doc"
  page_count :: "'doc \<Rightarrow> nat"
  fitz_render :: "'doc \<Rightarrow> nat \<Rightarrow> int \<Rightarrow> exn + rgb_image"
  image_to_string :: "gray_image \<Rightarrow> string \<Rightarrow> string \<Rightarrow> exn + string"
  basename :: "string \<Rightarrow> string"
  splitext_root :: "string \<Rightarrow> string"
  path_join :: "string \<Rightarrow> string \<Rightarrow> string"

text \<open>
  What a run leaves behind: the files written, in order (a later write to the same path
  replaces the earlier one), the lines sent to the log, and the progress bar's value.
  A log line is recorded by its format and arguments. In the worker, writing a
  file and logging a line are taken to succeed: the failures modelled there are those of
  opening a document, of rendering a page and of the OCR engine. What the plain-text
  writer puts on the disk, and its failure to open the file, are modelled apart, below.
\<close>

datatype flowable = XPreformatted string | Spacer int int

datatype content = TxtFile string | PdfFile string "flowable list"

datatype log_msg =
    LogExtracting string
  | LogPage nat nat int
  | LogWritingPdfChunk int int
  | LogWritingTxtChunk int int
  | LogWritingPdf
  | LogWritingTxt
  | LogSaved string
  | LogError string exn
  | LogDone

record world =
  written :: "(string \<times> content) list"
  log_lines :: "log_msg list"
  pb_value :: nat

definition log :: "log_msg \<Rightarrow> world \<Rightarrow> world" where
  "log m w = w\<lparr>log_lines := log_lines w @ [m]\<rparr>"

text \<open>
  The settings as \<open>_run_worker\<close> holds them in its local variables, after reading the
  widgets.
\<close>

record config =
  ocr_lang :: string
  dpi :: int
  outdir :: string
  fmt :: string
  do_chunk :: bool
  pages_per_chunk :: int

section \<open>OCR of one page and extraction of a document\<close>

text \<open>
  \<^verbatim>\<open>
  def _ocr_page_image(img, lang):
      cfg = "--psm 4 --oem 3 -c preserve_interword_spaces=1"
      text = pytesseract.image_to_string(img, lang=lang, config=cfg)
      return (text or "").strip()
  \<close>
\<close>

definition ocr_page_image :: "'doc env \<Rightarrow> gray_image \<Rightarrow> string \<Rightarrow> exn + string" where
  "ocr_page_image E img lang =
     (let cfg = ''--psm 4 --oem 3 -c preserve_interword_spaces=1''
      in case image_to_string E img lang cfg of
           Inl e \<Rightarrow> Inl e
         | Inr text \<Rightarrow> Inr (py_strip text))"

text \<open>\<open>_render_page(doc, page_index, dpi)\<close>: library calls only.\<close>

definition render_page :: "'doc env \<Rightarrow> 'doc \<Rightarrow> nat \<Rightarrow> int \<Rightarrow> exn + rgb_image" where
  "render_page E doc page_index d = fitz_render E doc page_index d"

text \<open>The marker and text appended for page \<open>pno\<close>: \<open>f"[PAGE {pno}]\n{txt}"\<close>.\<close>

definition page_entry :: "nat \<Rightarrow> string \<Rightarrow> string" where
  "page_entry pno txt = ''[PAGE '' @ str_int (int pno) @ '']'' @ [NL] @ txt"

text \<open>
  \<^verbatim>\<open>
  def extract_text_pages_force_ocr(pdf_path, dpi, ocr_lang, log):
      per_page = []
      doc = fitz.open(pdf_path)  # raises if invalid
      total = len(doc)
      for i in range(total):
          pno = i + 1
          log(f"... page {pno}/{total}: OCR at {dpi} DPI")
          img = _render_page(doc, i, dpi)
          img = _preprocess_for_ocr(img)
          txt = _ocr_page_image(img, ocr_lang)
          per_page.append(f"[PAGE {pno}]\n{txt}")
      return per_page
  \<close>
  The loop runs over the indices of \<open>range(total)\<close>; an exception of a library call
  leaves the function with the log lines written so far.
\<close>

fun extract_loop ::
  "'doc env \<Rightarrow> 'doc \<Rightarrow> nat \<Rightarrow> int \<Rightarrow> string \<Rightarrow> nat list \<Rightarrow> string list \<Rightarrow> world
     \<Rightarrow> world \<times> (exn + string list)" where
  "extract_loop E doc total' d lang [] per_page w = (w, Inr per_page)"
| "extract_loop E doc total' d lang (i # rest) per_page w =
     (let pno = i + 1;
          w1 = log (LogPage pno total' d) w
      in case render_page E doc i d of
           Inl e \<Rightarrow> (w1, Inl e)
         | Inr img \<Rightarrow>
             (case ocr_page_image E (preprocess_for_ocr (pil_ops E) img) lang of
                Inl e \<Rightarrow> (w1, Inl e)
              | Inr txt \<Rightarrow>
                  extract_loop E doc total' d lang rest (per_page @ [page_entry pno txt]) w1))"

definition extract_text_pages_force_ocr ::
  "'doc env \<Rightarrow> string \<Rightarrow> int \<Rightarrow> string \<Rightarrow> world \<Rightarrow> world \<times> (exn + string list)" where
  "extract_text_pages_force_ocr E pdf_path d lang w =
     (case fitz_open E pdf_path of
        Inl e \<Rightarrow> (w, Inl e)
      | Inr doc \<Rightarrow>
          (let total' = page_count E doc
           in extract_loop E doc total' d lang [0..<total'] [] w))"

section \<open>The two writers\<close>

text \<open>
  \<^verbatim>\<open>
  def save_text_as_txt(text, output_txt_path):
      with open(output_txt_path, "w", encoding="utf-8", errors="ignore") as f:
          f.write(text if text else "(No text extracted.)")
  \<close>
  The file's content (\<open>txt_content\<close>) is the string handed to \<open>f.write\<close>.
\<close>

definition txt_content :: "string \<Rightarrow> content" where
  "txt_content text = TxtFile (if text \<noteq> [] then text else ''(No text extracted.)'')"

definition save_text_as_txt :: "string \<Rightarrow> string \<Rightarrow> world \<Rightarrow> world" where
  "save_text_as_txt text output_txt_path w =
     w\<lparr>written := written w @ [(output_txt_path, txt_content text)]\<rparr>"

text \<open>
  \<^verbatim>\<open>
  def save_text_as_pdf(text, output_pdf_path, title=None):
      doc = SimpleDocTemplate(output_pdf_path, ...,
                              title=title or os.path.basename(output_pdf_path))
      safe_text = xml_escape((text or "").replace("\r\n", "\n"))
      chunks = [c.strip() for c in safe_text.split("\n\n")] or ["(No text extracted.)"]
      flow = []
      if title:
          flow.append(XPreformatted(xml_escape(title), pre_style))
          flow.append(Spacer(1, 6))
      for c in chunks:
          if c:
              flow.append(XPreformatted(c, pre_style))
              flow.append(Spacer(1, 6))
      doc.build(flow)
  \<close>
  The built document (\<open>pdf_content\<close>) is its title and its list of flowables; page
  size, margins and the paragraph style are constants of the layout.
\<close>

definition pdf_chunks :: "string \<Rightarrow> string list" where
  "pdf_chunks text =
     (let safe_text = xml_escape (py_replace text [CR, NL] [NL]);
          chunks = map py_strip (py_split safe_text [NL, NL])
      in if chunks \<noteq> [] then chunks else [''(No text extracted.)''])"

fun pdf_body :: "string list \<Rightarrow> flowable list" where
  "pdf_body [] = []"
| "pdf_body (c # cs) =
     (if c \<noteq> [] then [XPreformatted c, Spacer 1 6] @ pdf_body cs else pdf_body cs)"

definition pdf_flow :: "string \<Rightarrow> string option \<Rightarrow> flowable list" where
  "pdf_flow text title =
     (case title of
        None \<Rightarrow> []
      | Some t \<Rightarrow> if t \<noteq> [] then [XPreformatted (xml_escape t), Spacer 1 6] else [])
     @ pdf_body (pdf_chunks text)"

definition pdf_content :: "'doc env \<Rightarrow> string \<Rightarrow> string \<Rightarrow> string option \<Rightarrow> content" where
  "pdf_content E text output_pdf_path title =
     (let doc_title = (case title of
                         None \<Rightarrow> basename E output_pdf_path
                       | Some t \<Rightarrow> if t \<noteq> [] then t else basename E output_pdf_path)
      in PdfFile doc_title (pdf_flow text title))"

definition save_text_as_pdf ::
  "'doc env \<Rightarrow> string \<Rightarrow> string \<Rightarrow> string option \<Rightarrow> world \<Rightarrow> world" where
  "save_text_as_pdf E text output_pdf_path title w =
     w\<lparr>written := written w @ [(output_pdf_path, pdf_content E text output_pdf_path title)]\<rparr>"

section \<open>The text file that the plain-text writer opens\<close>


















section \<open>The worker\<close>

text \<open>
  The body of the chunk loop (lines 262 to 276), for one \<open>start_page\<close> and its
  \<open>end_page\<close>:
  \<^verbatim>\<open>
  chunk_text = join_pages(pages_text, start_page - 1, end_page)
  if fmt == "pdf":
      out_path = os.path.join(outdir, f"{base}_p{start_page:03d}-{end_page:03d}.pdf")
      self.log(f"Writing PDF chunk p{start_page}-{end_page}")
      title = f"{name} (pages {start_page}-{end_page})"
      save_text_as_pdf(chunk_text, out_path, title=title)
  else:
      out_path = os.path.join(outdir, f"{base}_p{start_page:03d}-{end_page:03d}.txt")
      self.log(f"Writing TXT chunk p{start_page}-{end_page}")
      save_text_as_txt(chunk_text, out_path)
  self.log(f"Saved: {out_path}")
  \<close>
\<close>

definition write_chunk ::
  "'doc env \<Rightarrow> config \<Rightarrow> string \<Rightarrow> string \<Rightarrow> string list \<Rightarrow> int \<Rightarrow> int \<Rightarrow> world \<Rightarrow> world" where
  "write_chunk E cfg name base pages_text start_page end_page w =
     (let chunk_text = join_pages pages_text (start_page - 1) end_page
      in if fmt cfg = ''pdf''
         then (let out_path = path_join E (outdir cfg)
                       (base @ ''_p'' @ fmt_03d start_page @ ''-'' @ fmt_03d end_page @ ''.pdf'');
                   w1 = log (LogWritingPdfChunk start_page end_page) w;
                   title = name @ '' (pages '' @ str_int start_page @ ''-''
                             @ str_int end_page @ '')'';
                   w2 = save_text_as_pdf E chunk_text out_path (Some title) w1
               in log (LogSaved out_path) w2)
         else (let out_path = path_join E (outdir cfg)
                       (base @ ''_p'' @ fmt_03d start_page @ ''-'' @ fmt_03d end_page @ ''.txt'');
                   w1 = log (LogWritingTxtChunk start_page end_page) w;
                   w2 = save_text_as_txt chunk_text out_path w1
               in log (LogSaved out_path) w2))"

text \<open>
  The chunk loop (lines 259 to 278), over any loop body \<open>body start_page end_page\<close>:
  \<^verbatim>\<open>
  start_page = 1
  while start_page <= total_pages:
      end_page = min(start_page + pages_per_chunk - 1, total_pages)
      ... body ...
      start_page = end_page + 1
  \<close>
  (\<open>chunk_idx\<close> is counted and never read.) The loop need not end for every
  \<open>pages_per_chunk\<close>, so its result is optional: \<open>None\<close> is a run that does not return.
\<close>

partial_function (option) chunk_loop ::
  "(int \<Rightarrow> int \<Rightarrow> 's \<Rightarrow> 's) \<Rightarrow> int \<Rightarrow> int \<Rightarrow> int \<Rightarrow> 's \<Rightarrow> 's option" where
  "chunk_loop body ppc total_pages start_page s =
     (if start_page \<le> total_pages
      then (let end_page = min (start_page + ppc - 1) total_pages
            in chunk_loop body ppc total_pages (end_page + 1) (body start_page end_page s))
      else Some s)"

declare chunk_loop.simps [code]

text \<open>The page ranges the loop visits: the loop with a body that records them.\<close>

definition chunk_ranges :: "int \<Rightarrow> int \<Rightarrow> (int \<times> int) list option" where
  "chunk_ranges ppc total_pages =
     chunk_loop (\<lambda>start_page end_page rs. rs @ [(start_page, end_page)]) ppc total_pages 1 []"

text \<open>
  The single output of the other branch (lines 281 to 290):
  \<^verbatim>\<open>
  full_text = join_pages(pages_text, 0, total_pages)
  if fmt == "pdf":
      out_path = os.path.join(outdir, f"{base}_text.pdf")
      self.log("Writing PDF")
      save_text_as_pdf(full_text, out_path, title=name)
  else:
      out_path = os.path.join(outdir, f"{base}.txt")
      self.log("Writing TXT")
      save_text_as_txt(full_text, out_path)
  self.log(f"Saved: {out_path}")
  \<close>
\<close>

definition write_single ::
  "'doc env \<Rightarrow> config \<Rightarrow> string \<Rightarrow> string \<Rightarrow> string list \<Rightarrow> world \<Rightarrow> world" where
  "write_single E cfg name base pages_text w =
     (let total_pages = int (length pages_text);
          full_text = join_pages pages_text 0 total_pages
      in if fmt cfg = ''pdf''
         then (let out_path = path_join E (outdir cfg) (base @ ''_text.pdf'');
                   w1 = log LogWritingPdf w;
                   w2 = save_text_as_pdf E full_text out_path (Some name) w1
               in log (LogSaved out_path) w2)
         else (let out_path = path_join E (outdir cfg) (base @ ''.txt'');
                   w1 = log LogWritingTxt w;
                   w2 = save_text_as_txt full_text out_path w1
               in log (LogSaved out_path) w2))"

text \<open>Lines 257 to 290: the choice between the two branches.\<close>

definition emit_outputs ::
  "'doc env \<Rightarrow> config \<Rightarrow> string \<Rightarrow> string \<Rightarrow> string list \<Rightarrow> world \<Rightarrow> world option" where
  "emit_outputs E cfg name base pages_text w =
     (let total_pages = int (length pages_text)
      in if do_chunk cfg \<and> pages_per_chunk cfg > 0
         then chunk_loop (write_chunk E cfg name base pages_text)
                (pages_per_chunk cfg) total_pages 1 w
         else Some (write_single E cfg name base pages_text w))"

text \<open>
  The body of the \<open>try\<close> statement for one input file (lines 252 to 290): the state it
  leaves, and the exception it raised, if any.
\<close>

definition try_file ::
  "'doc env \<Rightarrow> config \<Rightarrow> string \<Rightarrow> world \<Rightarrow> (world \<times> exn option) option" where
  "try_file E cfg pdf_path w =
     (let name = basename E pdf_path;
          w1 = log (LogExtracting name) w
      in case extract_text_pages_force_ocr E pdf_path (dpi cfg) (ocr_lang cfg) w1 of
           (w2, Inl e) \<Rightarrow> Some (w2, Some e)
         | (w2, Inr pages_text) \<Rightarrow>
             (let base = splitext_root E name
              in case emit_outputs E cfg name base pages_text w2 of
                   None \<Rightarrow> None
                 | Some w3 \<Rightarrow> Some (w3, None)))"

text \<open>
  One turn of the loop over the selected files (lines 249 to 295): the \<open>try\<close> body, the
  handler \<open>except Exception as e\<close> that logs the file name and the error, and the
  progress update that follows in either case.
\<close>

definition run_file :: "'doc env \<Rightarrow> config \<Rightarrow> nat \<Rightarrow> string \<Rightarrow> world \<Rightarrow> world option" where
  "run_file E cfg idx pdf_path w =
     (case try_file E cfg pdf_path w of
        None \<Rightarrow> None
      | Some (w1, r) \<Rightarrow>
          (let w2 = (case r of
                       None \<Rightarrow> w1
                     | Some e \<Rightarrow> log (LogError (basename E pdf_path) e) w1)
           in Some (w2\<lparr>pb_value := idx\<rparr>)))"

fun run_files :: "'doc env \<Rightarrow> config \<Rightarrow> nat \<Rightarrow> string list \<Rightarrow> world \<Rightarrow> world option" where
  "run_files E cfg idx [] w = Some w"
| "run_files E cfg idx (pdf_path # rest) w =
     (case run_file E cfg idx pdf_path w of
        None \<Rightarrow> None
      | Some w1 \<Rightarrow> run_files E cfg (idx + 1) rest w1)"

text \<open>
  \<open>_run_worker\<close>: \<open>enumerate(self.selected_files, start=1)\<close>, then the closing log line.
  (The final \<open>os.startfile(outdir)\<close>, whose failure is ignored, changes nothing here.)
\<close>

definition run_worker :: "'doc env \<Rightarrow> config \<Rightarrow> string list \<Rightarrow> world \<Rightarrow> world option" where
  "run_worker E cfg selected_files w =
     (case run_files E cfg 1 selected_files w of
        None \<Rightarrow> None
      | Some w1 \<Rightarrow> Some (log LogDone w1))"

section \<open>Notions used to state the properties\<close>

text \<open>
  The page ranges as a list function, for a positive chunk size: the range starting at
  \<open>a\<close>, then the ranges after it. The loop \<open>chunk_loop\<close> is shown to visit exactly
  these ranges.
\<close>

function page_ranges :: "int \<Rightarrow> int \<Rightarrow> int \<Rightarrow> (int \<times> int) list" where
  "page_ranges k n a =
     (if 0 < k \<and> a \<le> n
      then (a, min (a + k - 1) n) # page_ranges k n (min (a + k - 1) n + 1)
      else [])"
  by pat_completeness auto
termination
  by (relation "measure (\<lambda>(k, n, a). nat (n + 1 - a))") auto

declare page_ranges.simps [simp del]

text \<open>
  The specification's join, in its own words: the page texts with 1-based indices \<open>a\<close>
  to \<open>b\<close>, and their concatenation with one blank line (two line feeds) before every
  entry but the first.
\<close>

definition range_entries :: "string list \<Rightarrow> int \<Rightarrow> int \<Rightarrow> string list" where
  "range_entries pages_text a b = map (\<lambda>i. pages_text ! nat (i - 1)) [a..b]"

fun blank_line_concat :: "string list \<Rightarrow> string" where
  "blank_line_concat [] = []"
| "blank_line_concat (x # xs) = x @ concat (map (\<lambda>y. [NL, NL] @ y) xs)"

text \<open>
  The artifact of one output: the content the configured writer produces for a text, and,
  for the chunk of pages \<open>a\<close> to \<open>b\<close>, its path and content.
\<close>

definition artifact :: "'doc env \<Rightarrow> config \<Rightarrow> string \<Rightarrow> string \<Rightarrow> string \<Rightarrow> content" where
  "artifact E cfg out_path text title =
     (if fmt cfg = ''pdf'' then pdf_content E text out_path (Some title) else txt_content text)"

definition chunk_path :: "'doc env \<Rightarrow> config \<Rightarrow> string \<Rightarrow> int \<Rightarrow> int \<Rightarrow> string" where
  "chunk_path E cfg base a b =
     path_join E (outdir cfg)
       (base @ ''_p'' @ fmt_03d a @ ''-'' @ fmt_03d b
          @ (if fmt cfg = ''pdf'' then ''.pdf'' else ''.txt''))"

definition chunk_artifact ::
  "'doc env \<Rightarrow> config \<Rightarrow> string \<Rightarrow> string \<Rightarrow> string list \<Rightarrow> int \<Rightarrow> int \<Rightarrow> string \<times> content" where
  "chunk_artifact E cfg name base pages_text a b =
     (chunk_path E cfg base a b,
      artifact E cfg (chunk_path E cfg base a b) (join_pages pages_text (a - 1) b)
        (name @ '' (pages '' @ str_int a @ ''-'' @ str_int b @ '')''))"

definition single_path :: "'doc env \<Rightarrow> config \<Rightarrow> string \<Rightarrow> string" where
  "single_path E cfg base =
     path_join E (outdir cfg) (base @ (if fmt cfg = ''pdf'' then ''_text.pdf'' else ''.txt''))"

text \<open>
  The outcome of lines 92 to 94 for the page of index \<open>i\<close> (page number \<open>i + 1\<close>): the
  error of the rendering or of the OCR, or the trimmed recognised text.
\<close>

definition page_outcome :: "'doc env \<Rightarrow> 'doc \<Rightarrow> int \<Rightarrow> string \<Rightarrow> nat \<Rightarrow> exn + string" where
  "page_outcome E doc d lang i =
     (case render_page E doc i d of
        Inl e \<Rightarrow> Inl e
      | Inr img \<Rightarrow> ocr_page_image E (preprocess_for_ocr (pil_ops E) img) lang)"

definition page_logs :: "nat \<Rightarrow> int \<Rightarrow> nat list \<Rightarrow> log_msg list" where
  "page_logs total' d pages = map (\<lambda>i. LogPage (i + 1) total' d) pages"

section \<open>An example environment\<close>

text \<open>
  A small environment on which the model is run: one document, whose pages are given by
  the outcome of their OCR (an error, or the recognised text), rendered as images that
  differ in width; paths with \<open>/\<close> as the separator; and a file that cannot be opened.
\<close>

definition example_pil :: pil where
  "example_pil =
     \<lparr>resize_lanczos = (\<lambda>(w, h) img. img\<lparr>img_w := w, img_h := h\<rparr>),
      grayscale = (\<lambda>img. \<lparr>img_w = img_w img, img_h = img_h img,
                           img_px = (\<lambda>x y. fst (img_px img x y))\<rparr>),
      autocontrast = (\<lambda>g. g)\<rparr>"

definition page_image :: "nat \<Rightarrow> rgb_image" where
  "page_image i = \<lparr>img_w = 2000 + i, img_h = 2000, img_px = (\<lambda>x y. (255, 255, 255))\<rparr>"

definition small_image :: rgb_image where
  "small_image =
     \<lparr>img_w = 3, img_h = 3,
      img_px = (\<lambda>x y. if (x + y) mod 2 = 0 then (200, 200, 200) else (10, 10, 10))\<rparr>"

definition example_env :: "(exn + string) list \<Rightarrow> unit env" where
  "example_env pages =
     \<lparr>pil_ops = example_pil,
      fitz_open = (\<lambda>p. if p = ''in/missing.pdf''
                        then Inl (DocumentOpenError ''cannot open'') else Inr ()),
      page_count = (\<lambda>_. length pages),
      fitz_render = (\<lambda>_ i d. Inr (page_image i)),
      image_to_string = (\<lambda>img lang cfg. pages ! (img_w img - 2000)),
      basename = (\<lambda>p. rev (takeWhile (\<lambda>c. c \<noteq> CHR ''/'') (rev p))),
      splitext_root = (\<lambda>name. if CHR ''.'' \<in> set name
                          then rev (tl (dropWhile (\<lambda>c. c \<noteq> CHR ''.'') (rev name)))
                          else name),
      path_join = (\<lambda>d f. d @ ''/'' @ f)\<rparr>"

definition example_cfg :: "string \<Rightarrow> bool \<Rightarrow> int \<Rightarrow> config" where
  "example_cfg f c k =
     \<lparr>ocr_lang = ''eng+msa'', dpi = 300, outdir = ''out'', fmt = f,
      do_chunk = c, pages_per_chunk = k\<rparr>"

definition empty_world :: world where
  "empty_world = \<lparr>written = [], log_lines = [], pb_value = 0\<rparr>"

definition scenario_c :: "(exn + string) list" where
  "scenario_c = replicate 6 (Inr ''text'') @ [Inl (OCREngineError ''tesseract failed'')]
                  @ replicate 3 (Inr ''text'')"

section \<open>Joining: the slice is the range, the result is trimmed\<close>

lemma py_join_blank_line: "py_join [NL, NL] xs = blank_line_concat xs"
  by (induction "[NL, NL]" xs rule: py_join.induct) simp_all

lemma py_slice_range:
  assumes "1 \<le> a" "a \<le> b + 1" "b \<le> int (length xs)"
  shows "py_slice xs (a - 1) b = range_entries xs a b"
proof -
  define i where "i = nat (a - 1)"
  define j where "j = nat b"
  have ij: "i \<le> j" "j \<le> length xs" "int i = a - 1" "int j = b"
    using assms by (simp_all add: i_def j_def)
  have lo: "slice_bound (length xs) (a - 1) = i"
    using assms(1,3) ij(1,2) unfolding slice_bound_def i_def by auto
  have hi: "slice_bound (length xs) b = j"
    using assms(1,2) ij(2) unfolding slice_bound_def j_def by auto
  have sl: "py_slice xs (a - 1) b = take (j - i) (drop i xs)"
    by (simp add: py_slice_def lo hi)
  have len: "length [a..b] = j - i"
    using ij(1,3,4) by simp
  show ?thesis unfolding sl range_entries_def
  proof (rule nth_equalityI)
    show "length (take (j - i) (drop i xs)) = length (map (\<lambda>k. xs ! nat (k - 1)) [a..b])"
      using ij len by simp
  next
    fix k assume "k < length (take (j - i) (drop i xs))"
    then have k: "k < j - i" by simp
    then have k1: "i + k < j" by simp
    have k2: "int i + int k < int j" using k1 by simp
    have "a + int k \<le> b" using k2 ij(3,4) by simp
    then have n: "[a..b] ! k = a + int k" by simp
    have "a + int k - 1 = int (i + k)" using ij(3) by simp
    then have m: "nat (a + int k - 1) = i + k" by (simp only: nat_int)
    have kl: "k < length [a..b]" using k len by simp
    have "take (j - i) (drop i xs) ! k = xs ! (i + k)"
      using k k1 ij(2) by simp
    also have "\<dots> = map (\<lambda>k. xs ! nat (k - 1)) [a..b] ! k"
      using kl n m by (simp only: nth_map)
    finally show "take (j - i) (drop i xs) ! k = map (\<lambda>k. xs ! nat (k - 1)) [a..b] ! k" .
  qed
qed

lemma py_strip_decomp:
  "\<exists>l t. s = l @ py_strip s @ t \<and> (\<forall>c \<in> set l. is_space c) \<and> (\<forall>c \<in> set t. is_space c)"
proof -
  define l where "l = takeWhile is_space s"
  define m where "m = dropWhile is_space s"
  define t where "t = takeWhile is_space (rev m)"
  define r where "r = dropWhile is_space (rev m)"
  have lm: "l @ m = s" by (simp add: l_def m_def)
  have "t @ r = rev m" by (simp add: t_def r_def)
  then have "rev (t @ r) = rev (rev m)" by (rule arg_cong)
  then have m: "m = rev r @ rev t" by simp
  have p: "py_strip s = rev r"
    by (simp add: py_strip_def py_lstrip_def py_rstrip_def r_def m_def)
  have "s = l @ py_strip s @ rev t" unfolding p using lm m by simp
  moreover have "\<forall>c \<in> set l. is_space c"
    unfolding l_def by (auto dest: set_takeWhileD)
  moreover have "\<forall>c \<in> set (rev t). is_space c"
    unfolding t_def by (auto dest: set_takeWhileD)
  ultimately show ?thesis by blast
qed

lemma last_dropWhile:
  assumes "dropWhile P xs \<noteq> []"
  shows "last (dropWhile P xs) = last xs"
proof -
  have "last (takeWhile P xs @ dropWhile P xs) = last (dropWhile P xs)"
    using assms by (rule last_appendR)
  then show ?thesis by simp
qed

lemma py_strip_ends:
  assumes "py_strip s \<noteq> []"
  shows "\<not> is_space (hd (py_strip s)) \<and> \<not> is_space (last (py_strip s))"
proof -
  let ?m = "dropWhile is_space s"
  let ?r = "dropWhile is_space (rev ?m)"
  have s: "py_strip s = rev ?r"
    by (simp add: py_strip_def py_lstrip_def py_rstrip_def)
  have r: "?r \<noteq> []" using assms unfolding s by simp
  have m: "?m \<noteq> []"
  proof
    assume "?m = []"
    then have "?r = dropWhile is_space (rev [])" by (rule arg_cong)
    with r show False by simp
  qed
  have "\<not> is_space (hd ?r)" using r by (rule hd_dropWhile)
  then have e: "\<not> is_space (last (py_strip s))"
    using r unfolding s by (simp add: last_rev)
  have "last ?r = last (rev ?m)" using r by (rule last_dropWhile)
  also have "\<dots> = hd ?m" using m by (simp add: last_rev)
  finally have "hd (py_strip s) = hd ?m"
    using r unfolding s by (simp add: hd_rev)
  moreover have "\<not> is_space (hd ?m)" using m by (rule hd_dropWhile)
  ultimately show ?thesis using e by simp
qed

text \<open>
  C5. For every list of page texts and every 1-based inclusive range \<open>[a, b]\<close> within the
  list, the text joined for the range (\<open>join_pages\<close> called as on line 264, with
  \<open>a - 1\<close> and \<open>b\<close>) is the page texts \<open>a\<close> to \<open>b\<close> concatenated with one blank line
  between consecutive entries, with leading and trailing whitespace trimmed: the
  concatenation is the result between two runs of whitespace, and the result neither
  starts nor ends with whitespace.
\<close>

theorem join_pages_range:
  assumes "1 \<le> a" "a \<le> b" "b \<le> int (length pages_text)"
  shows "join_pages pages_text (a - 1) b
           = py_strip (blank_line_concat (range_entries pages_text a b))
         \<and> (\<exists>l t. blank_line_concat (range_entries pages_text a b)
                     = l @ join_pages pages_text (a - 1) b @ t
                 \<and> (\<forall>c \<in> set l. is_space c) \<and> (\<forall>c \<in> set t. is_space c))
         \<and> (join_pages pages_text (a - 1) b \<noteq> [] \<longrightarrow>
               \<not> is_space (hd (join_pages pages_text (a - 1) b))
             \<and> \<not> is_space (last (join_pages pages_text (a - 1) b)))"
proof -
  have eq: "join_pages pages_text (a - 1) b
              = py_strip (blank_line_concat (range_entries pages_text a b))"
    using assms by (simp add: join_pages_def py_slice_range py_join_blank_line)
  show ?thesis
    unfolding eq using py_strip_decomp py_strip_ends by simp
qed

theorem join_pages_range_witness:
  "(1::int) \<le> 2 \<and> (2::int) \<le> 3 \<and> 3 \<le> int (length [''one'', ''two '', '' three '', ''four''])
   \<and> join_pages [''one'', ''two '', '' three '', ''four''] (2 - 1) 3
       = ''two '' @ [NL, NL] @ '' three''"
  using join_pages_range [of 2 3 "[''one'', ''two '', '' three '', ''four'']"]
  by (simp add: range_entries_def py_strip_def py_lstrip_def py_rstrip_def is_space_def)

section \<open>The chunk loop and its page ranges\<close>

lemma page_ranges_step:
  "0 < k \<Longrightarrow> a \<le> n \<Longrightarrow>
     page_ranges k n a = (a, min (a + k - 1) n) # page_ranges k n (min (a + k - 1) n + 1)"
  by (subst page_ranges.simps) simp

lemma page_ranges_stop: "n < a \<Longrightarrow> page_ranges k n a = []"
  by (subst page_ranges.simps) simp

lemma chunk_loop_page_ranges:
  assumes "0 < k"
  shows "chunk_loop body k n a s = Some (foldl (\<lambda>s (x, y). body x y s) s (page_ranges k n a))"
  using assms
proof (induction k n a arbitrary: s rule: page_ranges.induct)
  case (1 k n a)
  show ?case
  proof (cases "a \<le> n")
    case True
    have "chunk_loop body k n a s
            = chunk_loop body k n (min (a + k - 1) n + 1) (body a (min (a + k - 1) n) s)"
      using True by (subst chunk_loop.simps) (simp add: Let_def)
    also have "\<dots> = Some (foldl (\<lambda>s (x, y). body x y s) (body a (min (a + k - 1) n) s)
                         (page_ranges k n (min (a + k - 1) n + 1)))"
      using "1.IH" [of "body a (min (a + k - 1) n) s"] True "1.prems" by simp
    finally show ?thesis
      using True "1.prems" by (simp add: page_ranges_step)
  next
    case False
    then have "chunk_loop body k n a s = Some s"
      by (subst chunk_loop.simps) simp
    then show ?thesis using False by (simp add: page_ranges_stop)
  qed
qed

lemma foldl_record: "foldl (\<lambda>rs (x, y). rs @ [(x, y)]) acc rs = acc @ rs"
  by (induction rs arbitrary: acc) auto

lemma chunk_ranges_eq: "0 < k \<Longrightarrow> chunk_ranges k n = Some (page_ranges k n 1)"
  by (simp add: chunk_ranges_def chunk_loop_page_ranges foldl_record)

lemma page_ranges_concat:
  "0 < k \<Longrightarrow> a \<le> n + 1 \<Longrightarrow> concat (map (\<lambda>(x, y). [x..y]) (page_ranges k n a)) = [a..n]"
proof (induction k n a rule: page_ranges.induct)
  case (1 k n a)
  show ?case
  proof (cases "a \<le> n")
    case True
    let ?e = "min (a + k - 1) n"
    have e: "a \<le> ?e" "?e \<le> n" using True "1.prems" by auto
    have "concat (map (\<lambda>(x, y). [x..y]) (page_ranges k n (?e + 1))) = [?e + 1..n]"
      using "1.IH" True "1.prems" e by simp
    moreover have "[a..n] = [a..?e] @ [?e + 1..n]"
      using e upto_split2 [of a ?e n] by simp
    ultimately show ?thesis using True "1.prems" by (simp add: page_ranges_step)
  next
    case False
    then show ?thesis using "1.prems" by (simp add: page_ranges_stop)
  qed
qed

lemma page_ranges_bounds:
  "(x, y) \<in> set (page_ranges k n a) \<Longrightarrow> a \<le> x \<and> x \<le> y \<and> y \<le> n \<and> y - x + 1 \<le> k"
proof (induction k n a rule: page_ranges.induct)
  case (1 k n a)
  show ?case
  proof (cases "0 < k \<and> a \<le> n")
    case True
    let ?e = "min (a + k - 1) n"
    from "1.prems" True have "(x, y) = (a, ?e) \<or> (x, y) \<in> set (page_ranges k n (?e + 1))"
      by (simp add: page_ranges_step)
    then show ?thesis
    proof
      assume "(x, y) = (a, ?e)"
      then show ?thesis using True by auto
    next
      assume "(x, y) \<in> set (page_ranges k n (?e + 1))"
      then have "?e + 1 \<le> x \<and> x \<le> y \<and> y \<le> n \<and> y - x + 1 \<le> k"
        using "1.IH" True by simp
      then show ?thesis using True by auto
    qed
  next
    case False
    then have "page_ranges k n a = []" by (subst page_ranges.simps) simp
    with "1.prems" show ?thesis by simp
  qed
qed

lemma page_ranges_nth:
  "i < length (page_ranges k n a) \<Longrightarrow>
     page_ranges k n a ! i = (a + int i * k, min (a + (int i + 1) * k - 1) n)"
proof (induction k n a arbitrary: i rule: page_ranges.induct)
  case (1 k n a)
  show ?case
  proof (cases "0 < k \<and> a \<le> n")
    case True
    let ?e = "min (a + k - 1) n"
    have st: "page_ranges k n a = (a, ?e) # page_ranges k n (?e + 1)"
      using True by (simp add: page_ranges_step)
    show ?thesis
    proof (cases i)
      case 0
      then show ?thesis by (simp add: st)
    next
      case (Suc j)
      then have j: "j < length (page_ranges k n (?e + 1))" using "1.prems" st by simp
      then have ne: "page_ranges k n (?e + 1) \<noteq> []" by auto
      have "?e + 1 \<le> n"
      proof (rule ccontr)
        assume "\<not> ?e + 1 \<le> n"
        then have "page_ranges k n (?e + 1) = []" by (simp add: page_ranges_stop)
        with ne show False by simp
      qed
      then have e: "?e = a + k - 1" by auto
      have "page_ranges k n (?e + 1) ! j = (?e + 1 + int j * k, min (?e + 1 + (int j + 1) * k - 1) n)"
        using "1.IH" True j by simp
      then show ?thesis unfolding st Suc e by (simp add: algebra_simps)
    qed
  next
    case False
    then have "page_ranges k n a = []" by (subst page_ranges.simps) simp
    with "1.prems" show ?thesis by simp
  qed
qed


lemma page_ranges_nonempty: "0 < k \<Longrightarrow> a \<le> n \<Longrightarrow> page_ranges k n a \<noteq> []"
  by (simp add: page_ranges_step)

lemma page_ranges_hd: "0 < k \<Longrightarrow> a \<le> n \<Longrightarrow> fst (hd (page_ranges k n a)) = a"
  by (simp add: page_ranges_step)

lemma page_ranges_empty_iff: "0 < k \<Longrightarrow> page_ranges k n a = [] \<longleftrightarrow> n < a"
  by (cases "a \<le> n") (simp_all add: page_ranges_step page_ranges_stop)

lemma page_ranges_adjacent:
  assumes "Suc i < length (page_ranges k n a)"
  shows "fst (page_ranges k n a ! Suc i) = snd (page_ranges k n a ! i) + 1
         \<and> snd (page_ranges k n a ! i) - fst (page_ranges k n a ! i) + 1 = k"
proof -
  let ?rs = "page_ranges k n a"
  have i: "i < length ?rs" using assms by simp
  have s: "?rs ! Suc i = (a + int (Suc i) * k, min (a + (int (Suc i) + 1) * k - 1) n)"
    using assms by (rule page_ranges_nth)
  have c: "?rs ! i = (a + int i * k, min (a + (int i + 1) * k - 1) n)"
    using i by (rule page_ranges_nth)
  have "?rs ! Suc i \<in> set ?rs" using assms by (rule nth_mem)
  then have "(a + int (Suc i) * k, min (a + (int (Suc i) + 1) * k - 1) n) \<in> set ?rs"
    using s by simp
  then have "a + int (Suc i) * k \<le> n"
    using page_ranges_bounds by fastforce
  then have "a + (int i + 1) * k - 1 \<le> n" by (simp add: algebra_simps)
  then have m: "min (a + (int i + 1) * k - 1) n = a + (int i + 1) * k - 1" by (rule min_absorb1)
  show ?thesis unfolding s c m by (simp add: algebra_simps)
qed

lemma page_ranges_last:
  assumes "0 < k" "a \<le> n"
  shows "snd (last (page_ranges k n a)) = n
         \<and> fst (last (page_ranges k n a)) = a + (int (length (page_ranges k n a)) - 1) * k"
proof -
  let ?rs = "page_ranges k n a"
  have ne: "?rs \<noteq> []" using assms by (rule page_ranges_nonempty)
  then have l: "length ?rs - 1 < length ?rs" by simp
  have la: "last ?rs = ?rs ! (length ?rs - 1)" using ne by (rule last_conv_nth)
  have nth: "?rs ! (length ?rs - 1)
               = (a + int (length ?rs - 1) * k, min (a + (int (length ?rs - 1) + 1) * k - 1) n)"
    using l by (rule page_ranges_nth)
  have il: "int (length ?rs - 1) = int (length ?rs) - 1" using ne by (simp add: of_nat_diff Suc_leI)
  have "concat (map (\<lambda>(x, y). [x..y]) ?rs) = [a..n]"
    using assms by (simp add: page_ranges_concat)
  have sn: "snd (last ?rs) = n"
    using assms
  proof (induction k n a rule: page_ranges.induct)
    case (1 k n a)
    let ?e = "min (a + k - 1) n"
    have st: "page_ranges k n a = (a, ?e) # page_ranges k n (?e + 1)"
      using "1.prems" by (simp add: page_ranges_step)
    show ?case
    proof (cases "?e + 1 \<le> n")
      case True
      then have "page_ranges k n (?e + 1) \<noteq> []" using "1.prems" by (simp add: page_ranges_nonempty)
      moreover have "snd (last (page_ranges k n (?e + 1))) = n"
        using "1.IH" "1.prems" True by simp
      ultimately show ?thesis unfolding st by simp
    next
      case False
      then have "page_ranges k n (?e + 1) = []" by (simp add: page_ranges_stop)
      moreover have "?e = n" using False "1.prems" by auto
      ultimately show ?thesis unfolding st by simp
    qed
  qed
  show ?thesis using sn la nth il by simp
qed

lemma page_ranges_last_len:
  assumes "0 < k" "1 \<le> n"
  defines "rs \<equiv> page_ranges k n 1"
  shows "snd (last rs) - fst (last rs) + 1 = n - k * (int (length rs) - 1)"
    and "snd (last rs) - fst (last rs) + 1 = (if n mod k = 0 then k else n mod k)"
    and "int (length rs) = (n + k - 1) div k"
proof -
  have ne: "rs \<noteq> []" unfolding rs_def using assms(1,2) by (rule page_ranges_nonempty)
  have l: "snd (last rs) = n" "fst (last rs) = 1 + (int (length rs) - 1) * k"
    unfolding rs_def using page_ranges_last [OF assms(1,2)] by simp_all
  define m where "m = int (length rs) - 1"
  define L where "L = snd (last rs) - fst (last rs) + 1"
  have Ln: "n = m * k + L" unfolding L_def m_def l by simp
  have "last rs \<in> set rs" using ne by simp
  then have "(fst (last rs), snd (last rs)) \<in> set (page_ranges k n 1)"
    unfolding rs_def by simp
  then have "fst (last rs) \<le> snd (last rs) \<and> snd (last rs) - fst (last rs) + 1 \<le> k"
    using page_ranges_bounds by blast
  then have Lb: "1 \<le> L" "L \<le> k" unfolding L_def by simp_all
  have m0: "0 \<le> m" unfolding m_def using ne by (cases rs) simp_all
  show "snd (last rs) - fst (last rs) + 1 = n - k * (int (length rs) - 1)"
    unfolding l by (simp add: algebra_simps)
  have md: "n mod k = L mod k" unfolding Ln by simp
  show "snd (last rs) - fst (last rs) + 1 = (if n mod k = 0 then k else n mod k)"
  proof (cases "L = k")
    case True
    then show ?thesis using md L_def by simp
  next
    case False
    then have "L < k" using Lb by simp
    then have "L mod k = L" using Lb by simp
    then show ?thesis using md Lb L_def by simp
  qed
  have e: "n + k - 1 = (m + 1) * k + (L - 1)" unfolding Ln by (simp add: algebra_simps)
  have d: "((m + 1) * k + (L - 1)) div k = m + 1"
    using Lb assms(1) by (simp add: div_pos_pos_trivial)
  have "(n + k - 1) div k = m + 1" by (simp only: e d)
  then show "int (length rs) = (n + k - 1) div k" unfolding m_def by simp
qed


lemma written_log: "written (log m w) = written w"
  by (simp add: log_def)

lemma written_write_chunk:
  "written (write_chunk E cfg name base pages_text a b w)
     = written w @ [chunk_artifact E cfg name base pages_text a b]"
  by (simp add: write_chunk_def chunk_artifact_def chunk_path_def artifact_def Let_def
      written_log save_text_as_pdf_def save_text_as_txt_def)

lemma written_write_single:
  "written (write_single E cfg name base pages_text w)
     = written w @ [(single_path E cfg base,
          artifact E cfg (single_path E cfg base)
            (join_pages pages_text 0 (int (length pages_text))) name)]"
  by (simp add: write_single_def single_path_def artifact_def Let_def
      written_log save_text_as_pdf_def save_text_as_txt_def)

lemma written_foldl_chunks:
  "written (foldl (\<lambda>w (a, b). write_chunk E cfg name base pages_text a b w) w rs)
     = written w @ map (\<lambda>(a, b). chunk_artifact E cfg name base pages_text a b) rs"
  by (induction rs arbitrary: w) (auto simp: written_write_chunk)

lemma emit_outputs_chunked:
  assumes "do_chunk cfg" "0 < pages_per_chunk cfg"
  shows "emit_outputs E cfg name base pages_text w
           = Some (foldl (\<lambda>w (a, b). write_chunk E cfg name base pages_text a b w) w
                     (page_ranges (pages_per_chunk cfg) (int (length pages_text)) 1))"
  using assms by (simp add: emit_outputs_def chunk_loop_page_ranges)

lemma emit_outputs_single:
  assumes "\<not> (do_chunk cfg \<and> 0 < pages_per_chunk cfg)"
  shows "emit_outputs E cfg name base pages_text w
           = Some (write_single E cfg name base pages_text w)"
  using assms by (auto simp add: emit_outputs_def)

text \<open>
  C1. With chunking enabled and a chunk size \<open>k > 0\<close>, the chunk loop returns for every
  page count \<open>n \<ge> 0\<close>, and the page ranges it visits (one artifact is written per range,
  in order) are ascending, non-overlapping and contiguous: their pages, concatenated, are
  exactly \<open>1..n\<close> (none for \<open>n = 0\<close>), each range starts one after the end of the
  previous one, every range but the last has \<open>k\<close> pages and the last holds the
  remainder. With chunking disabled or \<open>k \<le> 0\<close>, one artifact is written, for the single
  full range \<open>[1, n]\<close>.
\<close>

theorem chunk_partition:
  assumes "n = int (length pages_text)" and "k = pages_per_chunk cfg"
  shows "(do_chunk cfg \<and> 0 < k \<longrightarrow>
           (\<exists>rs w'. chunk_ranges k n = Some rs
              \<and> emit_outputs E cfg name base pages_text w = Some w'
              \<and> written w' = written w
                   @ map (\<lambda>(a, b). chunk_artifact E cfg name base pages_text a b) rs
              \<and> concat (map (\<lambda>(a, b). [a..b]) rs) = [1..n]
              \<and> (\<forall>(a, b) \<in> set rs. a \<le> b)
              \<and> (\<forall>i. Suc i < length rs \<longrightarrow>
                    fst (rs ! Suc i) = snd (rs ! i) + 1
                  \<and> snd (rs ! i) - fst (rs ! i) + 1 = k)
              \<and> (rs \<noteq> [] \<longrightarrow>
                    fst (hd rs) = 1 \<and> snd (last rs) = n
                  \<and> snd (last rs) - fst (last rs) + 1 = (if n mod k = 0 then k else n mod k))
              \<and> (n = 0 \<longrightarrow> rs = [])
              \<and> int (length rs) = (n + k - 1) div k))
       \<and> (\<not> (do_chunk cfg \<and> 0 < k) \<longrightarrow>
           (\<exists>w'. emit_outputs E cfg name base pages_text w = Some w'
              \<and> written w' = written w
                   @ [(single_path E cfg base,
                       artifact E cfg (single_path E cfg base)
                         (join_pages pages_text (1 - 1) n) name)]))"
proof (intro conjI impI)
  assume c: "do_chunk cfg \<and> 0 < k"
  then have k: "0 < k" by simp
  have n0: "0 \<le> n" using assms(1) by simp
  let ?rs = "page_ranges k n 1"
  have 1: "chunk_ranges k n = Some ?rs" using k by (rule chunk_ranges_eq)
  have 2: "emit_outputs E cfg name base pages_text w
             = Some (foldl (\<lambda>w (a, b). write_chunk E cfg name base pages_text a b w) w ?rs)"
    using c assms emit_outputs_chunked [of cfg E name base pages_text w] by simp
  have 3: "concat (map (\<lambda>(a, b). [a..b]) ?rs) = [1..n]"
    using k n0 by (simp add: page_ranges_concat)
  have 4: "\<forall>(a, b) \<in> set ?rs. a \<le> b"
    using page_ranges_bounds by blast
  have 5: "\<forall>i. Suc i < length ?rs \<longrightarrow>
             fst (?rs ! Suc i) = snd (?rs ! i) + 1 \<and> snd (?rs ! i) - fst (?rs ! i) + 1 = k"
    using page_ranges_adjacent by blast
  have ne: "?rs \<noteq> [] \<longleftrightarrow> 1 \<le> n"
    using k page_ranges_empty_iff [of k n 1] by auto
  have 6: "?rs \<noteq> [] \<longrightarrow> fst (hd ?rs) = 1 \<and> snd (last ?rs) = n
             \<and> snd (last ?rs) - fst (last ?rs) + 1 = (if n mod k = 0 then k else n mod k)"
  proof
    assume "?rs \<noteq> []"
    then have n1: "1 \<le> n" using ne by simp
    show "fst (hd ?rs) = 1 \<and> snd (last ?rs) = n
             \<and> snd (last ?rs) - fst (last ?rs) + 1 = (if n mod k = 0 then k else n mod k)"
      using page_ranges_hd [OF k n1] page_ranges_last [OF k n1] page_ranges_last_len(2) [OF k n1]
      by simp
  qed
  have 7: "n = 0 \<longrightarrow> ?rs = []" by (simp add: page_ranges_stop)
  have 8: "int (length ?rs) = (n + k - 1) div k"
  proof (cases "1 \<le> n")
    case True
    then show ?thesis using page_ranges_last_len(3) [OF k True] by simp
  next
    case False
    then have "n = 0" using n0 by simp
    moreover have "?rs = []" using False ne by simp
    ultimately show ?thesis using k by (simp add: div_pos_pos_trivial)
  qed
  show "\<exists>rs w'. chunk_ranges k n = Some rs
              \<and> emit_outputs E cfg name base pages_text w = Some w'
              \<and> written w' = written w
                   @ map (\<lambda>(a, b). chunk_artifact E cfg name base pages_text a b) rs
              \<and> concat (map (\<lambda>(a, b). [a..b]) rs) = [1..n]
              \<and> (\<forall>(a, b) \<in> set rs. a \<le> b)
              \<and> (\<forall>i. Suc i < length rs \<longrightarrow>
                    fst (rs ! Suc i) = snd (rs ! i) + 1
                  \<and> snd (rs ! i) - fst (rs ! i) + 1 = k)
              \<and> (rs \<noteq> [] \<longrightarrow>
                    fst (hd rs) = 1 \<and> snd (last rs) = n
                  \<and> snd (last rs) - fst (last rs) + 1 = (if n mod k = 0 then k else n mod k))
              \<and> (n = 0 \<longrightarrow> rs = [])
              \<and> int (length rs) = (n + k - 1) div k"
    using 1 2 3 4 5 6 7 8 written_foldl_chunks [of E cfg name base pages_text w ?rs]
    by blast
next
  assume c: "\<not> (do_chunk cfg \<and> 0 < k)"
  have "emit_outputs E cfg name base pages_text w
          = Some (write_single E cfg name base pages_text w)"
    using c assms(2) emit_outputs_single [of cfg E name base pages_text w] by simp
  then show "\<exists>w'. emit_outputs E cfg name base pages_text w = Some w'
              \<and> written w' = written w
                   @ [(single_path E cfg base,
                       artifact E cfg (single_path E cfg base)
                         (join_pages pages_text (1 - 1) n) name)]"
    using written_write_single [of E cfg name base pages_text w] assms(1) by simp
qed

theorem chunk_partition_witness:
  "do_chunk (example_cfg ''txt'' True 2) \<and> (0::int) < 2
   \<and> chunk_ranges 2 5 = Some [(1, 2), (3, 4), (5, 5)]
   \<and> (\<exists>w'. emit_outputs (example_env []) (example_cfg ''txt'' True 2) ''scan.pdf'' ''scan''
              [''[PAGE 1]'', ''[PAGE 2]'', ''[PAGE 3]'', ''[PAGE 4]'', ''[PAGE 5]''] empty_world
            = Some w'
          \<and> map fst (written w')
              = [''out/scan_p001-002.txt'', ''out/scan_p003-004.txt'', ''out/scan_p005-005.txt''])
   \<and> \<not> (do_chunk (example_cfg ''txt'' False 2) \<and> (0::int) < 2)
   \<and> (\<exists>w'. emit_outputs (example_env []) (example_cfg ''txt'' False 2) ''scan.pdf'' ''scan''
              [''[PAGE 1]'', ''[PAGE 2]''] empty_world = Some w'
          \<and> written w' = [(''out/scan.txt'', TxtFile (''[PAGE 1]'' @ [NL, NL] @ ''[PAGE 2]''))])"
proof -
  have r: "chunk_ranges 2 5 = Some [(1, 2), (3, 4), (5, 5)]"
    by (simp add: chunk_ranges_def chunk_loop.simps)
  have a: "do_chunk (example_cfg ''txt'' True 2) \<and> 0 < pages_per_chunk (example_cfg ''txt'' True 2)"
    by (simp add: example_cfg_def)
  have b: "\<not> (do_chunk (example_cfg ''txt'' False 2) \<and> 0 < pages_per_chunk (example_cfg ''txt'' False 2))"
    by (simp add: example_cfg_def)
  have ev: "fmt_03d 1 = ''001''" "fmt_03d 2 = ''002''" "fmt_03d 3 = ''003''"
      "fmt_03d 4 = ''004''" "fmt_03d 5 = ''005''"
    by (simp_all add: fmt_03d_def str_nat.simps numeral_2_eq_2)
  from chunk_partition [of 5 "[''[PAGE 1]'', ''[PAGE 2]'', ''[PAGE 3]'', ''[PAGE 4]'', ''[PAGE 5]'']"
      2 "example_cfg ''txt'' True 2" "example_env []" "''scan.pdf''" "''scan''" empty_world] a r
  have c: "\<exists>w'. emit_outputs (example_env []) (example_cfg ''txt'' True 2) ''scan.pdf'' ''scan''
              [''[PAGE 1]'', ''[PAGE 2]'', ''[PAGE 3]'', ''[PAGE 4]'', ''[PAGE 5]''] empty_world
            = Some w'
          \<and> map fst (written w')
              = [''out/scan_p001-002.txt'', ''out/scan_p003-004.txt'', ''out/scan_p005-005.txt'']"
    by (auto simp add: example_cfg_def example_env_def empty_world_def chunk_artifact_def
        chunk_path_def ev)
  from chunk_partition [of 2 "[''[PAGE 1]'', ''[PAGE 2]'']"
      2 "example_cfg ''txt'' False 2" "example_env []" "''scan.pdf''" "''scan''" empty_world] b
  have d: "\<exists>w'. emit_outputs (example_env []) (example_cfg ''txt'' False 2) ''scan.pdf'' ''scan''
              [''[PAGE 1]'', ''[PAGE 2]''] empty_world = Some w'
          \<and> written w' = [(''out/scan.txt'', TxtFile (''[PAGE 1]'' @ [NL, NL] @ ''[PAGE 2]''))]"
    by (auto simp add: example_cfg_def example_env_def empty_world_def single_path_def
        artifact_def txt_content_def join_pages_def py_slice_def slice_bound_def
        py_strip_def py_lstrip_def py_rstrip_def is_space_def)
  show ?thesis using a b r c d by (simp add: example_cfg_def)
qed

section \<open>The names of the artifacts\<close>

lemma fmt_03d_nonneg:
  "0 \<le> a \<Longrightarrow> fmt_03d a = replicate (3 - length (str_int a)) CHR ''0'' @ str_int a"
  by (simp add: fmt_03d_def str_int_def)

lemma page_ranges_10_25: "page_ranges 10 25 1 = [(1, 10), (11, 20), (21, 25)]"
  by (simp add: page_ranges.simps)

lemma fmt_03d_values:
  "fmt_03d 1 = ''001''" "fmt_03d 10 = ''010''" "fmt_03d 11 = ''011''"
  "fmt_03d 20 = ''020''" "fmt_03d 21 = ''021''" "fmt_03d 25 = ''025''"
  by (simp_all add: fmt_03d_def str_nat.simps numeral_2_eq_2)

text \<open>
  C4 (as stated, refuted). An unchunked run with the format \<open>pdf\<close> on \<open>in/scan.pdf\<close>
  writes \<open>out/scan_text.pdf\<close>, not \<open>out/scan.pdf\<close>.
\<close>

theorem unchunked_pdf_name_counterexample:
  "map_option (map fst \<circ> written)
     (run_worker (example_env [Inr ''Hello World'']) (example_cfg ''pdf'' False 10)
        [''in/scan.pdf''] empty_world)
     = Some [''out/scan_text.pdf'']
   \<and> map_option (map fst \<circ> written)
     (run_worker (example_env [Inr ''Hello World'']) (example_cfg ''pdf'' False 10)
        [''in/scan.pdf''] empty_world)
     \<noteq> Some [path_join (example_env [Inr ''Hello World'']) ''out''
          (splitext_root (example_env [Inr ''Hello World''])
             (basename (example_env [Inr ''Hello World'']) ''in/scan.pdf'') @ ''.pdf'')]"
  by code_simp

text \<open>
  C4 (amended). For every extracted document and format: an unchunked run writes one
  artifact, named \<open><base>.txt\<close> for the text format and \<open><base>_text.pdf\<close> for the
  format \<open>pdf\<close>; a chunked run writes, per page range \<open>[a, b]\<close> of the chunk loop, one
  artifact named \<open><base>_p<a>-<b>.<ext>\<close>, where \<open>a\<close> and \<open>b\<close> are written in decimal,
  padded with zeros to three digits; 25 pages with chunk size 10 give exactly the three
  artifacts of the ranges \<open>[1,10]\<close>, \<open>[11,20]\<close>, \<open>[21,25]\<close>.
\<close>

theorem artifact_names:
  assumes "n = int (length pages_text)" and "k = pages_per_chunk cfg"
    and "ext = (if fmt cfg = ''pdf'' then ''pdf'' else ''txt'')"
  shows "(\<not> (do_chunk cfg \<and> 0 < k) \<longrightarrow>
           (\<exists>w'. emit_outputs E cfg name base pages_text w = Some w'
              \<and> map fst (written w') = map fst (written w)
                   @ [path_join E (outdir cfg)
                        (base @ (if fmt cfg = ''pdf'' then ''_text.pdf'' else ''.txt''))]))
       \<and> (do_chunk cfg \<and> 0 < k \<longrightarrow>
           (\<exists>rs w'. chunk_ranges k n = Some rs
              \<and> emit_outputs E cfg name base pages_text w = Some w'
              \<and> map fst (written w') = map fst (written w)
                   @ map (\<lambda>(a, b). path_join E (outdir cfg)
                            (base @ ''_p'' @ fmt_03d a @ ''-'' @ fmt_03d b @ ''.'' @ ext)) rs))
       \<and> (do_chunk cfg \<and> k = 10 \<and> n = 25 \<longrightarrow>
           (\<exists>w'. emit_outputs E cfg name base pages_text w = Some w'
              \<and> map fst (written w') = map fst (written w)
                   @ [path_join E (outdir cfg) (base @ ''_p001-010.'' @ ext),
                      path_join E (outdir cfg) (base @ ''_p011-020.'' @ ext),
                      path_join E (outdir cfg) (base @ ''_p021-025.'' @ ext)]))
       \<and> (\<forall>a. 0 \<le> a \<longrightarrow>
             fmt_03d a = replicate (3 - length (str_int a)) CHR ''0'' @ str_int a)"
proof (intro conjI impI allI)
  assume c: "\<not> (do_chunk cfg \<and> 0 < k)"
  have "emit_outputs E cfg name base pages_text w
          = Some (write_single E cfg name base pages_text w)"
    using c assms(2) emit_outputs_single [of cfg E name base pages_text w] by simp
  then show "\<exists>w'. emit_outputs E cfg name base pages_text w = Some w'
              \<and> map fst (written w') = map fst (written w)
                   @ [path_join E (outdir cfg)
                        (base @ (if fmt cfg = ''pdf'' then ''_text.pdf'' else ''.txt''))]"
    using written_write_single [of E cfg name base pages_text w]
    by (simp add: single_path_def)
next
  assume c: "do_chunk cfg \<and> 0 < k"
  let ?rs = "page_ranges k n 1"
  let ?w = "foldl (\<lambda>w (a, b). write_chunk E cfg name base pages_text a b w) w ?rs"
  have 1: "chunk_ranges k n = Some ?rs" using c by (simp add: chunk_ranges_eq)
  have 2: "emit_outputs E cfg name base pages_text w = Some ?w"
    using c assms(1,2) emit_outputs_chunked [of cfg E name base pages_text w] by simp
  have p: "fst (chunk_artifact E cfg name base pages_text a b)
             = path_join E (outdir cfg)
                 (base @ ''_p'' @ fmt_03d a @ ''-'' @ fmt_03d b @ ''.'' @ ext)" for a b
    using assms(3) by (simp add: chunk_artifact_def chunk_path_def)
  have 3: "map fst (written ?w) = map fst (written w)
             @ map (\<lambda>(a, b). path_join E (outdir cfg)
                      (base @ ''_p'' @ fmt_03d a @ ''-'' @ fmt_03d b @ ''.'' @ ext)) ?rs"
    unfolding written_foldl_chunks by (simp add: p case_prod_unfold comp_def)
  show "\<exists>rs w'. chunk_ranges k n = Some rs
              \<and> emit_outputs E cfg name base pages_text w = Some w'
              \<and> map fst (written w') = map fst (written w)
                   @ map (\<lambda>(a, b). path_join E (outdir cfg)
                            (base @ ''_p'' @ fmt_03d a @ ''-'' @ fmt_03d b @ ''.'' @ ext)) rs"
    using 1 2 3 by blast
next
  assume c: "do_chunk cfg \<and> k = 10 \<and> n = 25"
  let ?rs = "page_ranges 10 25 1"
  let ?w = "foldl (\<lambda>w (a, b). write_chunk E cfg name base pages_text a b w) w ?rs"
  have 2: "emit_outputs E cfg name base pages_text w = Some ?w"
    using c assms(1,2) emit_outputs_chunked [of cfg E name base pages_text w] by simp
  have p: "fst (chunk_artifact E cfg name base pages_text a b)
             = path_join E (outdir cfg)
                 (base @ ''_p'' @ fmt_03d a @ ''-'' @ fmt_03d b @ ''.'' @ ext)" for a b
    using assms(3) by (simp add: chunk_artifact_def chunk_path_def)
  have 3: "map fst (written ?w) = map fst (written w)
             @ [path_join E (outdir cfg) (base @ ''_p001-010.'' @ ext),
                path_join E (outdir cfg) (base @ ''_p011-020.'' @ ext),
                path_join E (outdir cfg) (base @ ''_p021-025.'' @ ext)]"
    unfolding written_foldl_chunks page_ranges_10_25
    by (simp add: p fmt_03d_values)
  show "\<exists>w'. emit_outputs E cfg name base pages_text w = Some w'
              \<and> map fst (written w') = map fst (written w)
                   @ [path_join E (outdir cfg) (base @ ''_p001-010.'' @ ext),
                      path_join E (outdir cfg) (base @ ''_p011-020.'' @ ext),
                      path_join E (outdir cfg) (base @ ''_p021-025.'' @ ext)]"
    using 2 3 by blast
next
  fix a :: int assume "0 \<le> a"
  then show "fmt_03d a = replicate (3 - length (str_int a)) CHR ''0'' @ str_int a"
    by (rule fmt_03d_nonneg)
qed

theorem artifact_names_witness:
  "\<not> (do_chunk (example_cfg ''pdf'' False 10) \<and> (0::int) < 10)
   \<and> (\<exists>w'. emit_outputs (example_env []) (example_cfg ''pdf'' False 10) ''scan.pdf'' ''scan''
              [''[PAGE 1]''] empty_world = Some w'
          \<and> map fst (written w') = [''out/scan_text.pdf''])
   \<and> do_chunk (example_cfg ''txt'' True 10) \<and> (10::int) = 10
   \<and> (25::int) = int (length (replicate 25 ''[PAGE]''))
   \<and> (\<exists>w'. emit_outputs (example_env []) (example_cfg ''txt'' True 10) ''scan.pdf'' ''scan''
              (replicate 25 ''[PAGE]'') empty_world = Some w'
          \<and> map fst (written w')
               = [''out/scan_p001-010.txt'', ''out/scan_p011-020.txt'', ''out/scan_p021-025.txt''])
   \<and> (0::int) \<le> 7 \<and> fmt_03d 7 = ''007''"
proof -
  have a: "\<exists>w'. emit_outputs (example_env []) (example_cfg ''pdf'' False 10) ''scan.pdf'' ''scan''
              [''[PAGE 1]''] empty_world = Some w'
          \<and> map fst (written w') = [''out/scan_text.pdf'']"
    using artifact_names [of 1 "[''[PAGE 1]'']" 10 "example_cfg ''pdf'' False 10" "''pdf''"
        "example_env []" "''scan.pdf''" "''scan''" empty_world]
    by (simp add: example_cfg_def example_env_def empty_world_def)
  have b: "\<exists>w'. emit_outputs (example_env []) (example_cfg ''txt'' True 10) ''scan.pdf'' ''scan''
              (replicate 25 ''[PAGE]'') empty_world = Some w'
          \<and> map fst (written w')
               = [''out/scan_p001-010.txt'', ''out/scan_p011-020.txt'', ''out/scan_p021-025.txt'']"
    using artifact_names [of 25 "replicate 25 ''[PAGE]''" 10 "example_cfg ''txt'' True 10" "''txt''"
        "example_env []" "''scan.pdf''" "''scan''" empty_world]
    by (simp add: example_cfg_def example_env_def empty_world_def)
  have c: "fmt_03d 7 = ''007''"
    using artifact_names [of 1 "[''[PAGE 1]'']" 10 "example_cfg ''pdf'' False 10" "''pdf''"
        "example_env []" "''scan.pdf''" "''scan''" empty_world]
    by (simp add: example_cfg_def str_int_def str_nat.simps numeral_2_eq_2)
  show ?thesis using a b c by (simp add: example_cfg_def)
qed

section \<open>Empty slices and the document of zero pages\<close>

lemma slice_bound_mono:
  assumes "e \<le> s" "0 \<le> e \<or> s < 0"
  shows "slice_bound n e \<le> slice_bound n s"
  using assms by (auto simp add: slice_bound_def)

lemma py_slice_empty:
  assumes "e \<le> s" "0 \<le> e \<or> s < 0"
  shows "py_slice xs s e = []"
  using slice_bound_mono [OF assms, of "length xs"] by (simp add: py_slice_def)

lemma join_pages_Nil: "join_pages [] s e = []"
  by (simp add: join_pages_def py_slice_def py_strip_def py_lstrip_def py_rstrip_def)

lemma extract_zero_pages:
  assumes "fitz_open E p = Inr doc" "page_count E doc = 0"
  shows "extract_text_pages_force_ocr E p d lang w = (w, Inr [])"
  using assms by (simp add: extract_text_pages_force_ocr_def)

text \<open>
  C10 (as stated, refuted). With \<open>start_idx = 0\<close> and \<open>end_idx = -1\<close> the start is not
  below the end, and the slice \<open>pages_text[0:-1]\<close> is all but the last page.
\<close>

theorem join_pages_negative_end_counterexample:
  "(-1::int) \<le> 0
   \<and> join_pages [''a'', ''b'', ''c''] 0 (-1) = ''a'' @ [NL, NL] @ ''b''
   \<and> join_pages [''a'', ''b'', ''c''] 0 (-1) \<noteq> []"
  by (simp add: join_pages_def py_slice_def slice_bound_def py_strip_def py_lstrip_def
      py_rstrip_def is_space_def)

text \<open>
  C10 (amended). For every list of page texts and indices with \<open>start_idx \<ge> end_idx\<close>
  that are both non-negative or both negative, \<open>join_pages\<close> returns the empty string; in
  particular, a document of zero pages processed with chunking disabled and the text
  format writes exactly one artifact, \<open><base>.txt\<close>, whose content is the placeholder
  \<open>(No text extracted.)\<close>.
\<close>

theorem join_pages_empty_range:
  "(end_idx \<le> start_idx \<and> (0 \<le> end_idx \<or> start_idx < 0) \<longrightarrow>
      join_pages pages_text start_idx end_idx = [])
   \<and> (fitz_open E pdf_path = Inr doc \<and> page_count E doc = 0
        \<and> \<not> do_chunk cfg \<and> fmt cfg \<noteq> ''pdf'' \<longrightarrow>
      (\<exists>w'. run_file E cfg idx pdf_path w = Some w'
         \<and> written w' = written w
              @ [(path_join E (outdir cfg) (splitext_root E (basename E pdf_path) @ ''.txt''),
                  TxtFile ''(No text extracted.)'')]))"
proof (intro conjI impI)
  assume "end_idx \<le> start_idx \<and> (0 \<le> end_idx \<or> start_idx < 0)"
  then have "py_slice pages_text start_idx end_idx = []"
    using py_slice_empty [of end_idx start_idx pages_text] by simp
  then show "join_pages pages_text start_idx end_idx = []"
    by (simp add: join_pages_def py_strip_def py_lstrip_def py_rstrip_def)
next
  assume a: "fitz_open E pdf_path = Inr doc \<and> page_count E doc = 0
        \<and> \<not> do_chunk cfg \<and> fmt cfg \<noteq> ''pdf''"
  let ?name = "basename E pdf_path"
  let ?w1 = "log (LogExtracting ?name) w"
  have e: "extract_text_pages_force_ocr E pdf_path (dpi cfg) (ocr_lang cfg) ?w1 = (?w1, Inr [])"
    using a by (simp add: extract_zero_pages)
  have t: "try_file E cfg pdf_path w
             = Some (write_single E cfg ?name (splitext_root E ?name) [] ?w1, None)"
    using a by (simp add: try_file_def e emit_outputs_def Let_def)
  have r: "run_file E cfg idx pdf_path w
             = Some ((write_single E cfg ?name (splitext_root E ?name) [] ?w1)\<lparr>pb_value := idx\<rparr>)"
    by (simp add: run_file_def t)
  have "written ((write_single E cfg ?name (splitext_root E ?name) [] ?w1)\<lparr>pb_value := idx\<rparr>)
          = written w
              @ [(path_join E (outdir cfg) (splitext_root E ?name @ ''.txt''),
                  TxtFile ''(No text extracted.)'')]"
    using a by (simp add: written_write_single single_path_def artifact_def txt_content_def
        join_pages_Nil written_log)
  with r show "\<exists>w'. run_file E cfg idx pdf_path w = Some w'
         \<and> written w' = written w
              @ [(path_join E (outdir cfg) (splitext_root E (basename E pdf_path) @ ''.txt''),
                  TxtFile ''(No text extracted.)'')]"
    by blast
qed

theorem join_pages_empty_range_witness:
  "(2::int) \<le> 3 \<and> ((0::int) \<le> 2 \<or> (3::int) < 0)
   \<and> join_pages [''a'', ''b'', ''c'', ''d''] 3 2 = []
   \<and> fitz_open (example_env []) ''in/scan.pdf'' = Inr ()
   \<and> page_count (example_env []) () = 0
   \<and> \<not> do_chunk (example_cfg ''txt'' False 10) \<and> fmt (example_cfg ''txt'' False 10) \<noteq> ''pdf''
   \<and> (\<exists>w'. run_file (example_env []) (example_cfg ''txt'' False 10) 1 ''in/scan.pdf'' empty_world
              = Some w'
          \<and> written w' = [(''out/scan.txt'', TxtFile ''(No text extracted.)'')])"
  using join_pages_empty_range [of 2 3 "[''a'', ''b'', ''c'', ''d'']" "example_env []"
      "''in/scan.pdf''" "()" "example_cfg ''txt'' False 10" 1 empty_world]
  by (simp add: example_env_def example_cfg_def empty_world_def)

section \<open>The PDF writer on the empty text\<close>

lemma split_on_nonempty: "split_on sep cur s \<noteq> []"
  by (induction sep cur s rule: split_on.induct) auto

lemma pdf_chunks_no_fallback:
  "pdf_chunks text = map py_strip (py_split (xml_escape (py_replace text [CR, NL] [NL])) [NL, NL])"
  by (simp add: pdf_chunks_def Let_def py_split_def split_on_nonempty)

lemma pdf_chunks_empty: "pdf_chunks [] = [[]]"
  by (simp add: pdf_chunks_no_fallback xml_escape_def py_replace_def py_split_def
      py_strip_def py_lstrip_def py_rstrip_def)

text \<open>
  C3. Given the empty text, \<open>"".split("\n\n")\<close> is the list of one empty string, which
  is not an empty list: the fallback \<open>or ["(No text extracted.)"]\<close> of line 65 is not
  taken (it never is, for any text), the empty chunk is skipped by \<open>if c\<close>, and the
  built document holds no paragraph block for the text: only the title's block, if a
  title was given.
\<close>

theorem save_text_as_pdf_empty_text:
  "pdf_chunks [] = [[]]
   \<and> pdf_body (pdf_chunks []) = []
   \<and> pdf_flow [] None = []
   \<and> pdf_flow [] (Some ''scan.pdf'') = [XPreformatted ''scan.pdf'', Spacer 1 6]
   \<and> XPreformatted ''(No text extracted.)'' \<notin> set (pdf_flow [] (Some ''scan.pdf''))
   \<and> written (save_text_as_pdf E [] ''out/scan_text.pdf'' (Some ''scan.pdf'') w)
       = written w @ [(''out/scan_text.pdf'',
           PdfFile ''scan.pdf'' [XPreformatted ''scan.pdf'', Spacer 1 6])]
   \<and> pdf_chunks text
       = map py_strip (py_split (xml_escape (py_replace text [CR, NL] [NL])) [NL, NL])"
proof -
  have x: "xml_escape ''scan.pdf'' = ''scan.pdf''"
    by (simp add: xml_escape_def py_replace_def py_split_def)
  show ?thesis
    using pdf_chunks_no_fallback [of "text"]
    by (simp add: pdf_chunks_empty pdf_flow_def x save_text_as_pdf_def pdf_content_def)
qed

section \<open>Extraction: one marked entry per page\<close>

lemma extract_loop_Cons:
  "extract_loop E doc t d lang (i # rest) acc w =
     (case page_outcome E doc d lang i of
        Inl e \<Rightarrow> (log (LogPage (i + 1) t d) w, Inl e)
      | Inr txt \<Rightarrow> extract_loop E doc t d lang rest (acc @ [page_entry (i + 1) txt])
                    (log (LogPage (i + 1) t d) w))"
  by (simp add: page_outcome_def Let_def split: sum.splits)

lemma log_lines_log: "log_lines (log m w) = log_lines w @ [m]"
  by (simp add: log_def)

lemma extract_loop_ok:
  assumes "\<forall>i \<in> set is. \<exists>txt. page_outcome E doc d lang i = Inr txt"
  shows "extract_loop E doc t d lang is acc w =
           (w\<lparr>log_lines := log_lines w @ page_logs t d is\<rparr>,
            Inr (acc @ map (\<lambda>i. page_entry (i + 1) (projr (page_outcome E doc d lang i))) is))"
  using assms
proof (induction "is" arbitrary: acc w)
  case Nil
  then show ?case by (simp add: page_logs_def)
next
  case (Cons i rest)
  from Cons.prems obtain tx where t: "page_outcome E doc d lang i = Inr tx" by auto
  have r: "\<forall>i \<in> set rest. \<exists>txt. page_outcome E doc d lang i = Inr txt"
    using Cons.prems by simp
  show ?case
    unfolding extract_loop_Cons t
    by (simp add: Cons.IH [OF r] page_logs_def log_def t)
qed

lemma extract_loop_fail:
  assumes "\<forall>i \<in> set pre. \<exists>txt. page_outcome E doc d lang i = Inr txt"
    and "page_outcome E doc d lang p = Inl e"
  shows "extract_loop E doc t d lang (pre @ p # post) acc w =
           (w\<lparr>log_lines := log_lines w @ page_logs t d (pre @ [p])\<rparr>, Inl e)"
  using assms(1)
proof (induction pre arbitrary: acc w)
  case Nil
  show ?case unfolding append_Nil extract_loop_Cons assms(2)
    by (simp add: page_logs_def log_def)
next
  case (Cons i rest)
  from Cons.prems obtain tx where t: "page_outcome E doc d lang i = Inr tx" by auto
  have r: "\<forall>i \<in> set rest. \<exists>txt. page_outcome E doc d lang i = Inr txt"
    using Cons.prems by simp
  show ?case
    unfolding append_Cons extract_loop_Cons t
    by (simp add: Cons.IH [OF r] page_logs_def log_def)
qed

lemma extract_loop_Inr_ok:
  assumes "extract_loop E doc t d lang is acc w = (w', Inr pages)"
  shows "\<forall>i \<in> set is. \<exists>txt. page_outcome E doc d lang i = Inr txt"
  using assms
proof (induction "is" arbitrary: acc w)
  case Nil
  then show ?case by simp
next
  case (Cons i rest)
  show ?case
  proof (cases "page_outcome E doc d lang i")
    case (Inl e)
    with Cons.prems show ?thesis unfolding extract_loop_Cons by simp
  next
    case (Inr tx)
    with Cons.prems have "extract_loop E doc t d lang rest (acc @ [page_entry (i + 1) tx])
        (log (LogPage (i + 1) t d) w) = (w', Inr pages)"
      unfolding extract_loop_Cons by simp
    then have "\<forall>i \<in> set rest. \<exists>txt. page_outcome E doc d lang i = Inr txt"
      by (rule Cons.IH)
    with Inr show ?thesis by simp
  qed
qed

lemma page_outcome_Inr:
  assumes "page_outcome E doc d lang i = Inr tx"
  shows "\<exists>img raw. render_page E doc i d = Inr img
           \<and> image_to_string E (preprocess_for_ocr (pil_ops E) img) lang
                ''--psm 4 --oem 3 -c preserve_interword_spaces=1'' = Inr raw
           \<and> tx = py_strip raw"
  using assms
  by (auto simp add: page_outcome_def ocr_page_image_def Let_def split: sum.splits)

text \<open>
  C6. When the extraction of a document succeeds, the returned list has one entry per
  page of the document, in the order of the pages, and its entry for page \<open>n + 1\<close> is the
  marker \<open>[PAGE n+1]\<close>, a line feed, and the trimmed text that the OCR engine returned
  for the rendered and preprocessed page: the marker is there whatever the text is, the
  empty text included.
\<close>

theorem extracted_pages:
  assumes "extract_text_pages_force_ocr E pdf_path d lang w = (w', Inr pages)"
  shows "\<exists>doc. fitz_open E pdf_path = Inr doc
           \<and> length pages = page_count E doc
           \<and> (\<forall>n < length pages. \<exists>img raw.
                 render_page E doc n d = Inr img
               \<and> image_to_string E (preprocess_for_ocr (pil_ops E) img) lang
                    ''--psm 4 --oem 3 -c preserve_interword_spaces=1'' = Inr raw
               \<and> pages ! n = ''[PAGE '' @ str_int (int n + 1) @ '']'' @ [NL] @ py_strip raw)"
proof (cases "fitz_open E pdf_path")
  case (Inl e)
  with assms show ?thesis by (simp add: extract_text_pages_force_ocr_def)
next
  case (Inr doc)
  let ?t = "page_count E doc"
  have l: "extract_loop E doc ?t d lang [0..<?t] [] w = (w', Inr pages)"
    using assms Inr by (simp add: extract_text_pages_force_ocr_def Let_def)
  then have ok: "\<forall>i \<in> set [0..<?t]. \<exists>tx. page_outcome E doc d lang i = Inr tx"
    by (rule extract_loop_Inr_ok)
  have pg: "pages = map (\<lambda>i. page_entry (i + 1) (projr (page_outcome E doc d lang i))) [0..<?t]"
    using l extract_loop_ok [OF ok, of ?t "[]" w] by simp
  have len: "length pages = ?t" unfolding pg by simp
  have "\<exists>img raw. render_page E doc n d = Inr img
               \<and> image_to_string E (preprocess_for_ocr (pil_ops E) img) lang
                    ''--psm 4 --oem 3 -c preserve_interword_spaces=1'' = Inr raw
               \<and> pages ! n = ''[PAGE '' @ str_int (int n + 1) @ '']'' @ [NL] @ py_strip raw"
    if n: "n < length pages" for n
  proof -
    have nt: "n < ?t" using n len by simp
    then have "n \<in> set [0..<?t]" by simp
    with ok have "\<exists>tx. page_outcome E doc d lang n = Inr tx" by (rule bspec)
    then obtain tx where tx: "page_outcome E doc d lang n = Inr tx" by (rule exE)
    have "pages ! n = page_entry (n + 1) tx" unfolding pg using nt by (simp add: tx)
    then have "pages ! n = ''[PAGE '' @ str_int (int n + 1) @ '']'' @ [NL] @ tx"
      by (simp add: page_entry_def add.commute)
    with page_outcome_Inr [OF tx] show ?thesis by auto
  qed
  with Inr len show ?thesis by blast
qed

theorem extracted_pages_witness:
  "extract_text_pages_force_ocr (example_env [Inr '' Hello World '', Inr []]) ''in/scan.pdf''
       300 ''eng+msa'' empty_world
     = (\<lparr>written = [], log_lines = [LogPage 1 2 300, LogPage 2 2 300], pb_value = 0\<rparr>,
        Inr [''[PAGE 1]'' @ [NL] @ ''Hello World'', ''[PAGE 2]'' @ [NL]])
   \<and> (\<exists>doc. fitz_open (example_env [Inr '' Hello World '', Inr []]) ''in/scan.pdf'' = Inr doc
          \<and> length [''[PAGE 1]'' @ [NL] @ ''Hello World'', ''[PAGE 2]'' @ [NL]]
               = page_count (example_env [Inr '' Hello World '', Inr []]) doc)"
proof -
  have ev: "extract_text_pages_force_ocr (example_env [Inr '' Hello World '', Inr []])
       ''in/scan.pdf'' 300 ''eng+msa'' empty_world
     = (\<lparr>written = [], log_lines = [LogPage 1 2 300, LogPage 2 2 300], pb_value = 0\<rparr>,
        Inr [''[PAGE 1]'' @ [NL] @ ''Hello World'', ''[PAGE 2]'' @ [NL]])"
    by code_simp
  from extracted_pages [OF ev] show ?thesis using ev by blast
qed

section \<open>A failing page and the batch\<close>

lemma emit_outputs_returns: "\<exists>w'. emit_outputs E cfg name base pages_text w = Some w'"
proof (cases "do_chunk cfg \<and> 0 < pages_per_chunk cfg")
  case True
  then show ?thesis using emit_outputs_chunked [of cfg E name base pages_text w] by simp
next
  case False
  then show ?thesis using emit_outputs_single [of cfg E name base pages_text w] by simp
qed

lemma try_file_returns: "\<exists>r. try_file E cfg pdf_path w = Some r"
proof -
  obtain w2 r where e: "extract_text_pages_force_ocr E pdf_path (dpi cfg) (ocr_lang cfg)
      (log (LogExtracting (basename E pdf_path)) w) = (w2, r)"
    by (cases "extract_text_pages_force_ocr E pdf_path (dpi cfg) (ocr_lang cfg)
      (log (LogExtracting (basename E pdf_path)) w)") simp
  show ?thesis
  proof (cases r)
    case (Inl x)
    then show ?thesis using e by (simp add: try_file_def Let_def)
  next
    case (Inr pages)
    obtain w3 where "emit_outputs E cfg (basename E pdf_path)
        (splitext_root E (basename E pdf_path)) pages w2 = Some w3"
      using emit_outputs_returns by blast
    then show ?thesis using e Inr by (simp add: try_file_def Let_def)
  qed
qed

lemma run_file_returns: "\<exists>w'. run_file E cfg idx pdf_path w = Some w'"
proof -
  obtain r where "try_file E cfg pdf_path w = Some r" using try_file_returns by blast
  then show ?thesis by (cases r) (simp add: run_file_def Let_def)
qed

lemma run_files_returns: "\<exists>w'. run_files E cfg idx files w = Some w'"
proof (induction files arbitrary: idx w)
  case Nil
  show ?case by simp
next
  case (Cons f files)
  obtain w1 where "run_file E cfg idx f w = Some w1" using run_file_returns by blast
  then show ?case using Cons.IH [of "idx + 1" w1] by simp
qed

lemma upt_split_at:
  assumes "p < t"
  shows "[0..<t] = [0..<p] @ p # [Suc p..<t]"
proof -
  have "[0..<t] = [0..<p] @ [p..<t]"
    using assms upt_add_eq_append [of 0 p "t - p"] by simp
  then show ?thesis using assms by (simp add: upt_conv_Cons)
qed

text \<open>
  C2 (as stated, refuted). Scenario C: the OCR engine fails on page 7 of a document of
  10 pages. The error that leaves the extraction is the engine's own error, as raised:
  it is not a \<open>DocumentExtractionError\<close> and carries no page index.
\<close>

theorem page_failure_unwrapped_counterexample:
  "length scenario_c = 10
   \<and> page_outcome (example_env scenario_c) () 300 ''eng+msa'' 6
       = Inl (OCREngineError ''tesseract failed'')
   \<and> snd (extract_text_pages_force_ocr (example_env scenario_c) ''in/scan.pdf'' 300 ''eng+msa''
            empty_world)
       = Inl (OCREngineError ''tesseract failed'')
   \<and> snd (extract_text_pages_force_ocr (example_env scenario_c) ''in/scan.pdf'' 300 ''eng+msa''
            empty_world)
       \<noteq> Inl (DocumentExtractionError 7 (OCREngineError ''tesseract failed''))"
  by code_simp

text \<open>
  C2 (amended). If rendering or OCR fails on the page of index \<open>p\<close> (page number
  \<open>p + 1\<close>) of a document, after the pages before it succeeded, the extraction of the
  whole document ends there with no page text returned; the error raised to the caller is
  the error of the failing call itself, unchanged; no output artifact is written for that
  document; the worker logs the file name with the error, sets the progress, and
  continues with the next input file, and the batch runs to its end.
\<close>

theorem page_failure_aborts_document:
  assumes "fitz_open E pdf_path = Inr doc" and "p < page_count E doc"
    and "\<forall>i < p. \<exists>tx. page_outcome E doc (dpi cfg) (ocr_lang cfg) i = Inr tx"
    and "page_outcome E doc (dpi cfg) (ocr_lang cfg) p = Inl e"
  shows "extract_text_pages_force_ocr E pdf_path (dpi cfg) (ocr_lang cfg) w
           = (w\<lparr>log_lines := log_lines w
                  @ page_logs (page_count E doc) (dpi cfg) [0..<Suc p]\<rparr>, Inl e)
       \<and> (\<exists>w'. run_file E cfg idx pdf_path w = Some w'
             \<and> written w' = written w
             \<and> log_lines w' = log_lines w @ [LogExtracting (basename E pdf_path)]
                  @ page_logs (page_count E doc) (dpi cfg) [0..<Suc p]
                  @ [LogError (basename E pdf_path) e]
             \<and> pb_value w' = idx
             \<and> run_files E cfg idx (pdf_path # rest) w = run_files E cfg (idx + 1) rest w'
             \<and> (\<exists>w''. run_files E cfg (idx + 1) rest w' = Some w''))"
proof -
  let ?t = "page_count E doc"
  let ?d = "dpi cfg"
  let ?l = "ocr_lang cfg"
  have sp: "[0..<?t] = [0..<p] @ p # [Suc p..<?t]" using assms(2) by (rule upt_split_at)
  have pre: "\<forall>i \<in> set [0..<p]. \<exists>tx. page_outcome E doc ?d ?l i = Inr tx"
    using assms(3) by simp
  have ex: "extract_text_pages_force_ocr E pdf_path ?d ?l v
           = (v\<lparr>log_lines := log_lines v @ page_logs ?t ?d [0..<Suc p]\<rparr>, Inl e)" for v
  proof -
    have "extract_text_pages_force_ocr E pdf_path ?d ?l v
            = extract_loop E doc ?t ?d ?l ([0..<p] @ p # [Suc p..<?t]) [] v"
      using assms(1) sp by (simp add: extract_text_pages_force_ocr_def Let_def)
    also have "\<dots> = (v\<lparr>log_lines := log_lines v @ page_logs ?t ?d ([0..<p] @ [p])\<rparr>, Inl e)"
      using pre assms(4) by (rule extract_loop_fail)
    finally show ?thesis by simp
  qed
  let ?name = "basename E pdf_path"
  let ?w1 = "log (LogExtracting ?name) w"
  let ?w2 = "?w1\<lparr>log_lines := log_lines ?w1 @ page_logs ?t ?d [0..<Suc p]\<rparr>"
  let ?w3 = "(log (LogError ?name e) ?w2)\<lparr>pb_value := idx\<rparr>"
  have t: "try_file E cfg pdf_path w = Some (?w2, Some e)"
    by (simp add: try_file_def Let_def ex [of ?w1])
  have r: "run_file E cfg idx pdf_path w = Some ?w3"
    by (simp add: run_file_def t)
  have a: "written ?w3 = written w" by (simp add: log_def)
  have b: "log_lines ?w3 = log_lines w @ [LogExtracting ?name]
             @ page_logs ?t ?d [0..<Suc p] @ [LogError ?name e]"
    by (simp add: log_def)
  have c: "pb_value ?w3 = idx" by simp
  have d: "run_files E cfg idx (pdf_path # rest) w = run_files E cfg (idx + 1) rest ?w3"
    by (simp add: r)
  have f: "\<exists>w''. run_files E cfg (idx + 1) rest ?w3 = Some w''"
    by (rule run_files_returns)
  show ?thesis using ex [of w] r a b c d f by blast
qed

theorem page_failure_aborts_document_witness:
  "fitz_open (example_env scenario_c) ''in/scan.pdf'' = Inr ()
   \<and> 6 < page_count (example_env scenario_c) ()
   \<and> page_outcome (example_env scenario_c) () 300 ''eng+msa'' 6
       = Inl (OCREngineError ''tesseract failed'')
   \<and> run_worker (example_env scenario_c) (example_cfg ''txt'' False 10)
        [''in/scan.pdf'', ''in/missing.pdf''] empty_world
       = Some \<lparr>written = [],
           log_lines = [LogExtracting ''scan.pdf'', LogPage 1 10 300, LogPage 2 10 300,
             LogPage 3 10 300, LogPage 4 10 300, LogPage 5 10 300, LogPage 6 10 300,
             LogPage 7 10 300, LogError ''scan.pdf'' (OCREngineError ''tesseract failed''),
             LogExtracting ''missing.pdf'',
             LogError ''missing.pdf'' (DocumentOpenError ''cannot open''), LogDone],
           pb_value = 2\<rparr>
   \<and> (\<exists>w'. run_file (example_env scenario_c) (example_cfg ''txt'' False 10) 1 ''in/scan.pdf''
              empty_world = Some w'
          \<and> written w' = []
          \<and> run_files (example_env scenario_c) (example_cfg ''txt'' False 10) 1
               [''in/scan.pdf'', ''in/missing.pdf''] empty_world
             = run_files (example_env scenario_c) (example_cfg ''txt'' False 10) 2
                 [''in/missing.pdf''] w')"
proof -
  have 1: "fitz_open (example_env scenario_c) ''in/scan.pdf'' = Inr ()"
    by (simp add: example_env_def)
  have 2: "6 < page_count (example_env scenario_c) ()"
    by (simp add: example_env_def scenario_c_def)
  have 3: "\<forall>i < 6. \<exists>tx. page_outcome (example_env scenario_c) ()
             (dpi (example_cfg ''txt'' False 10)) (ocr_lang (example_cfg ''txt'' False 10)) i
             = Inr tx"
  proof -
    have v: "\<forall>i \<in> {0, 1, 2, 3, 4, 5}. page_outcome (example_env scenario_c) ()
             (dpi (example_cfg ''txt'' False 10)) (ocr_lang (example_cfg ''txt'' False 10)) i
             = Inr ''text''"
      by code_simp
    have "i \<in> {0, 1, 2, 3, 4, 5}" if "i < 6" for i :: nat
      using that by auto
    with v show ?thesis by blast
  qed
  have 4: "page_outcome (example_env scenario_c) ()
             (dpi (example_cfg ''txt'' False 10)) (ocr_lang (example_cfg ''txt'' False 10)) 6
             = Inl (OCREngineError ''tesseract failed'')"
    by code_simp
  have 5: "run_worker (example_env scenario_c) (example_cfg ''txt'' False 10)
        [''in/scan.pdf'', ''in/missing.pdf''] empty_world
       = Some \<lparr>written = [],
           log_lines = [LogExtracting ''scan.pdf'', LogPage 1 10 300, LogPage 2 10 300,
             LogPage 3 10 300, LogPage 4 10 300, LogPage 5 10 300, LogPage 6 10 300,
             LogPage 7 10 300, LogError ''scan.pdf'' (OCREngineError ''tesseract failed''),
             LogExtracting ''missing.pdf'',
             LogError ''missing.pdf'' (DocumentOpenError ''cannot open''), LogDone],
           pb_value = 2\<rparr>"
    by code_simp
  have 6: "written empty_world = []" by (simp add: empty_world_def)
  have 7: "page_outcome (example_env scenario_c) () 300 ''eng+msa'' 6
       = Inl (OCREngineError ''tesseract failed'')"
    using 4 by (simp add: example_cfg_def)
  from page_failure_aborts_document [OF 1 2 3 4, of empty_world 1 "[''in/missing.pdf'']"]
  show ?thesis using 1 2 5 6 7 by (auto simp add: numeral_2_eq_2)
qed

section \<open>The preprocessor returns a bilevel image\<close>

lemma bilevel_point: "bilevel (point threshold180 g)"
  by (simp add: bilevel_def point_def threshold180_def)

lemma pixel_within:
  "a < img_w g \<Longrightarrow> b < img_h g \<Longrightarrow>
     \<exists>x' < img_w g. \<exists>y' < img_h g. img_px g a b = img_px g x' y'"
  by blast

lemma window3_pixels:
  assumes "x < img_w g" "y < img_h g" "v \<in> set (window3 g x y)"
  shows "\<exists>x' < img_w g. \<exists>y' < img_h g. v = img_px g x' y'"
  using assms by (auto simp add: window3_def intro!: pixel_within)

lemma length_window3: "length (window3 g x y) = 9"
  by (simp add: window3_def)

lemma bilevel_median:
  assumes "bilevel g"
  shows "bilevel (MedianFilter3 g)"
  unfolding bilevel_def
proof (intro allI impI)
  fix x y assume "x < img_w (MedianFilter3 g)" "y < img_h (MedianFilter3 g)"
  then have xy: "x < img_w g" "y < img_h g" by (simp_all add: MedianFilter3_def)
  have "sort (window3 g x y) ! 4 \<in> set (sort (window3 g x y))"
    by (rule nth_mem) (simp add: length_window3)
  then have "sort (window3 g x y) ! 4 \<in> set (window3 g x y)" by simp
  then obtain x' y' where "x' < img_w g" "y' < img_h g"
      "sort (window3 g x y) ! 4 = img_px g x' y'"
    using window3_pixels [OF xy] by blast
  then have "sort (window3 g x y) ! 4 = 0 \<or> sort (window3 g x y) ! 4 = 255"
    using assms by (simp add: bilevel_def)
  then show "img_px (MedianFilter3 g) x y = 0 \<or> img_px (MedianFilter3 g) x y = 255"
    by (simp add: MedianFilter3_def)
qed

lemma sum_list_bilevel:
  assumes "\<forall>v \<in> set ns. v = (0::int) \<or> v = 255"
  shows "0 \<le> sum_list ns \<and> sum_list ns \<le> 255 * int (length ns)
         \<and> (sum_list ns = 0 \<or> 255 \<le> sum_list ns)"
  using assms by (induction ns) auto

lemma sharpen_px_bilevel:
  assumes "c = 0 \<or> c = 255" "\<forall>v \<in> set ns. v = 0 \<or> v = 255" "length ns = 8"
  shows "sharpen_px c ns = 0 \<or> sharpen_px c ns = 255"
proof -
  have s: "0 \<le> sum_list ns" "sum_list ns \<le> 2040" "sum_list ns = 0 \<or> 255 \<le> sum_list ns"
    using sum_list_bilevel [OF assms(2)] assms(3) by simp_all
  from assms(1) show ?thesis
  proof
    assume "c = 0"
    then show ?thesis using s by (auto simp add: sharpen_px_def Let_def)
  next
    assume "c = 255"
    then show ?thesis using s by (auto simp add: sharpen_px_def Let_def)
  qed
qed

lemma bilevel_sharpen:
  assumes "bilevel g"
  shows "bilevel (SHARPEN g)"
  unfolding bilevel_def
proof (intro allI impI)
  fix x y assume "x < img_w (SHARPEN g)" "y < img_h (SHARPEN g)"
  then have xy: "x < img_w g" "y < img_h g" by (simp_all add: SHARPEN_def)
  have b: "img_px g x' y' = 0 \<or> img_px g x' y' = 255" if "x' < img_w g" "y' < img_h g" for x' y'
    using assms that by (simp add: bilevel_def)
  show "img_px (SHARPEN g) x y = 0 \<or> img_px (SHARPEN g) x y = 255"
  proof (cases "x = 0 \<or> y = 0 \<or> img_w g \<le> x + 1 \<or> img_h g \<le> y + 1")
    case True
    then show ?thesis using b [OF xy] by (auto simp add: SHARPEN_def)
  next
    case False
    then have r: "x - 1 < img_w g" "x + 1 < img_w g" "y - 1 < img_h g" "y + 1 < img_h g"
      by linarith+
    have "\<forall>v \<in> set (neighbours8 g x y). v = 0 \<or> v = 255"
      using b r xy by (simp add: neighbours8_def)
    moreover have "length (neighbours8 g x y) = 8" by (simp add: neighbours8_def)
    ultimately have "sharpen_px (img_px g x y) (neighbours8 g x y) = 0
        \<or> sharpen_px (img_px g x y) (neighbours8 g x y) = 255"
      using b [OF xy] by (intro sharpen_px_bilevel)
    then show ?thesis using False by (simp add: SHARPEN_def)
  qed
qed

text \<open>
  C7. The preprocessor applies, in this order: the resize by 1.5 of both dimensions with
  the Lanczos filter exactly when the smaller dimension is below 1400, the conversion to
  greyscale, the autocontrast, the threshold that maps a value above 180 to 255 (white)
  and any other to 0 (black), the median filter of window 3, and the sharpening filter;
  and every pixel of the image it returns is 0 or 255.
\<close>

theorem preprocess_pipeline:
  "preprocess_for_ocr P img
     = SHARPEN (MedianFilter3 (point threshold180 (autocontrast P (grayscale P
         (if min (img_w img) (img_h img) < 1400
          then resize_lanczos P (img_w img * 3 div 2, img_h img * 3 div 2) img
          else img)))))
   \<and> threshold180 v = (if 180 < v then 255 else 0)
   \<and> bilevel (preprocess_for_ocr P img)"
proof -
  have "bilevel (SHARPEN (MedianFilter3 (point threshold180 g)))" for g
    by (intro bilevel_sharpen bilevel_median bilevel_point)
  then show ?thesis
    by (simp add: preprocess_for_ocr_def Let_def threshold180_def)
qed

theorem preprocess_pipeline_witness:
  "(1::nat) < img_w (preprocess_for_ocr example_pil small_image)
   \<and> (1::nat) < img_h (preprocess_for_ocr example_pil small_image)
   \<and> img_px (preprocess_for_ocr example_pil small_image) 1 1 = 255
   \<and> img_px (preprocess_for_ocr example_pil small_image) 2 1 = 0
   \<and> bilevel (preprocess_for_ocr example_pil small_image)"
proof -
  have "(1::nat) < img_w (preprocess_for_ocr example_pil small_image)
   \<and> (1::nat) < img_h (preprocess_for_ocr example_pil small_image)
   \<and> img_px (preprocess_for_ocr example_pil small_image) 1 1 = 255
   \<and> img_px (preprocess_for_ocr example_pil small_image) 2 1 = 0"
    by code_simp
  moreover have "bilevel (preprocess_for_ocr example_pil small_image)"
    using preprocess_pipeline [of example_pil small_image] by blast
  ultimately show ?thesis by blast
qed

section \<open>The plain-text writer and its file\<close>



























end
